theory Spec2Isabelle
  imports Complex_Main "HOL-Library.Word"
begin

unbundle bit_operations_syntax

section \<open>The motion planner of Grbl (stepper\_plan.c)\<close>

text \<open>
  A shallow embedding of \<^verbatim>\<open>stepper_plan.c\<close>. The planner keeps a ring buffer of
  blocks, two indices into it and a mode flag; every function of the source becomes a
  function on that state. What C leaves undefined is a value of the model: reading
  through a null pointer, forming the address of an array element outside the array,
  converting a floating-point value that is not a representable integer, and signed
  overflow all end the computation with a \<open>Fault\<close>.
\<close>

subsection \<open>Outcomes\<close>

datatype double = Fin real | PInf | NInf | NaN

datatype fault =
    Null_Deref              \<comment> \<open>a read or write through a null \<^verbatim>\<open>block_t *\<close>\<close>
  | Out_Of_Bounds int       \<comment> \<open>\<^verbatim>\<open>&block_buffer[i]\<close> with \<open>i\<close> outside the array\<close>
  | Not_Representable double \<comment> \<open>conversion of a double to \<^verbatim>\<open>int32_t\<close>\<close>
  | Signed_Overflow int     \<comment> \<open>a signed result outside \<^verbatim>\<open>int32_t\<close>\<close>

datatype 'a result = Ok 'a | Fault fault

definition bind_result :: "'a result \<Rightarrow> ('a \<Rightarrow> 'b result) \<Rightarrow> 'b result" where
  "bind_result m f = (case m of Fault e \<Rightarrow> Fault e | Ok x \<Rightarrow> f x)"

subsection \<open>Doubles\<close>

text \<open>
  A \<^verbatim>\<open>double\<close> is a real number, one of the two infinities, or not a number. Finite
  arithmetic is exact: the rounding and the overflow of the binary format are not
  modelled, and neither is the sign of zero. The exceptional values follow IEEE 754:
  a nonzero number divided by zero is an infinity, \<open>0/0\<close> and the square root of a
  negative number are NaN, and every comparison with NaN is false.
\<close>

fun dneg :: "double \<Rightarrow> double" where
  "dneg (Fin a) = Fin (- a)"
| "dneg PInf = NInf"
| "dneg NInf = PInf"
| "dneg NaN = NaN"

definition signed_inf :: "real \<Rightarrow> double" where
  "signed_inf a = (if a = 0 then NaN else if 0 < a then PInf else NInf)"

fun dadd :: "double \<Rightarrow> double \<Rightarrow> double" where
  "dadd (Fin a) (Fin b) = Fin (a + b)"
| "dadd NaN y = NaN"
| "dadd x NaN = NaN"
| "dadd PInf NInf = NaN"
| "dadd NInf PInf = NaN"
| "dadd PInf y = PInf"
| "dadd NInf y = NInf"
| "dadd x PInf = PInf"
| "dadd x NInf = NInf"

definition dsub :: "double \<Rightarrow> double \<Rightarrow> double" where
  "dsub x y = dadd x (dneg y)"

fun dmul :: "double \<Rightarrow> double \<Rightarrow> double" where
  "dmul (Fin a) (Fin b) = Fin (a * b)"
| "dmul NaN y = NaN"
| "dmul x NaN = NaN"
| "dmul (Fin a) PInf = signed_inf a"
| "dmul (Fin a) NInf = signed_inf (- a)"
| "dmul PInf (Fin b) = signed_inf b"
| "dmul NInf (Fin b) = signed_inf (- b)"
| "dmul PInf PInf = PInf"
| "dmul PInf NInf = NInf"
| "dmul NInf PInf = NInf"
| "dmul NInf NInf = PInf"

fun ddiv :: "double \<Rightarrow> double \<Rightarrow> double" where
  "ddiv (Fin a) (Fin b) = (if b = 0 then signed_inf a else Fin (a / b))"
| "ddiv NaN y = NaN"
| "ddiv x NaN = NaN"
| "ddiv (Fin a) y = Fin 0"
| "ddiv PInf (Fin b) = (if 0 \<le> b then PInf else NInf)"
| "ddiv NInf (Fin b) = (if 0 \<le> b then NInf else PInf)"
| "ddiv x y = NaN"

fun dsqrt :: "double \<Rightarrow> double" where
  "dsqrt (Fin a) = (if a < 0 then NaN else Fin (sqrt a))"
| "dsqrt PInf = PInf"
| "dsqrt x = NaN"

fun dceil :: "double \<Rightarrow> double" where
  "dceil (Fin a) = Fin (of_int \<lceil>a\<rceil>)"
| "dceil x = x"

fun dless :: "double \<Rightarrow> double \<Rightarrow> bool" where
  "dless (Fin a) (Fin b) = (a < b)"
| "dless NaN y = False"
| "dless x NaN = False"
| "dless x NInf = False"
| "dless PInf y = False"
| "dless x y = True"

definition of_long :: "int \<Rightarrow> double" where
  "of_long n = Fin (of_int n)"

definition in_int32 :: "int \<Rightarrow> bool" where
  "in_int32 n = (- 2147483648 \<le> n \<and> n \<le> 2147483647)"

text \<open>
  The conversion of a double to \<^verbatim>\<open>int32_t\<close> drops the fraction; it is undefined for
  NaN, for the infinities and for a value outside the range of the type.
\<close>

fun to_int32 :: "double \<Rightarrow> int result" where
  "to_int32 (Fin a) =
     (let n = (if 0 \<le> a then \<lfloor>a\<rfloor> else \<lceil>a\<rceil>)
      in if in_int32 n then Ok n else Fault (Not_Representable (Fin a)))"
| "to_int32 x = Fault (Not_Representable x)"

definition int32 :: "int \<Rightarrow> int result" where
  "int32 n = (if in_int32 n then Ok n else Fault (Signed_Overflow n))"

subsection \<open>Blocks, settings and the planner state\<close>

text \<open>
  Modelled from the spec: the declaration of \<^verbatim>\<open>block_t\<close> is in
  \<^verbatim>\<open>stepper_plan.h\<close>, which is not part of the sources at hand. The fields are those of
  the spec's data model (and those the code reads and writes); the integer fields are
  32-bit signed, as the spec says, and hold values in that range.
\<close>

record block_t =
  steps_x :: int
  steps_y :: int
  steps_z :: int
  direction_bits :: "8 word"
  step_event_count :: int
  nominal_rate :: int
  speed_x :: double
  speed_y :: double
  speed_z :: double
  nominal_speed :: double
  millimeters :: double
  entry_factor :: double
  initial_rate :: int
  rate_delta :: int
  accelerate_until :: int
  decelerate_after :: int

text \<open>
  Modelled from the spec: \<^verbatim>\<open>settings\<close> is declared outside \<^verbatim>\<open>stepper_plan.c\<close>; the
  planner reads \<open>acceleration\<close>, \<open>max_jerk\<close> and the three entries of
  \<open>steps_per_mm\<close>. The compile-time constants \<^verbatim>\<open>ACCELERATION_TICKS_PER_SECOND\<close>
  and the three direction bits come from \<^verbatim>\<open>config.h\<close>, also absent: they are taken as
  parameters here. \<^verbatim>\<open>BLOCK_BUFFER_SIZE\<close> is the length of the array \<open>block_buffer\<close>.
\<close>

record settings_t =
  acceleration :: double
  max_jerk :: double
  steps_per_mm :: "double \<times> double \<times> double"
  ACCELERATION_TICKS_PER_SECOND :: int
  X_DIRECTION_BIT :: nat
  Y_DIRECTION_BIT :: nat
  Z_DIRECTION_BIT :: nat

record planner =
  block_buffer :: "block_t list"
  block_buffer_head :: int
  block_buffer_tail :: int
  acceleration_management :: bool

definition BLOCK_BUFFER_SIZE :: "planner \<Rightarrow> int" where
  "BLOCK_BUFFER_SIZE s = int (length (block_buffer s))"

text \<open>A \<^verbatim>\<open>block_t *\<close> is null or points to a slot of the ring.\<close>

type_synonym block_ptr = "nat option"

definition addr_of :: "planner \<Rightarrow> int \<Rightarrow> nat result" where
  "addr_of s i =
     (if 0 \<le> i \<and> i < BLOCK_BUFFER_SIZE s then Ok (nat i) else Fault (Out_Of_Bounds i))"

definition store :: "nat \<Rightarrow> block_t \<Rightarrow> planner \<Rightarrow> planner" where
  "store i b s = s\<lparr>block_buffer := (block_buffer s)[i := b]\<rparr>"

text \<open>C's \<^verbatim>\<open>%\<close> truncates towards zero; a value stored in an \<^verbatim>\<open>int8_t\<close> keeps its low
  eight bits, read as two's complement.\<close>

definition c_rem :: "int \<Rightarrow> int \<Rightarrow> int" where
  "c_rem a b = sgn a * (\<bar>a\<bar> mod \<bar>b\<bar>)"

definition to_int8 :: "int \<Rightarrow> int" where
  "to_int8 n = signed_take_bit 7 n"

subsection \<open>The trapezoid generator\<close>

definition estimate_acceleration_distance :: "double \<Rightarrow> double \<Rightarrow> double \<Rightarrow> double" where
  "estimate_acceleration_distance initial_rate' target_rate acceleration' =
     ddiv (dsub (dmul target_rate target_rate) (dmul initial_rate' initial_rate'))
          (dmul (Fin 2) acceleration')"

definition intersection_distance :: "double \<Rightarrow> double \<Rightarrow> double \<Rightarrow> double \<Rightarrow> double" where
  "intersection_distance initial_rate' final_rate acceleration' distance =
     ddiv (dadd (dsub (dmul (dmul (Fin 2) acceleration') distance)
                      (dmul initial_rate' initial_rate'))
                (dmul final_rate final_rate))
          (dmul (Fin 4) acceleration')"

text \<open>The local variable \<^verbatim>\<open>final_rate\<close> (line 118): the argument \<open>exit_factor\<close> is
  not used.\<close>

definition final_rate_of :: "block_t \<Rightarrow> double \<Rightarrow> double \<Rightarrow> int result" where
  "final_rate_of block entry_factor' exit_factor =
     to_int32 (dceil (dmul (of_long (nominal_rate block)) entry_factor'))"

definition trapezoid :: "settings_t \<Rightarrow> block_t \<Rightarrow> double \<Rightarrow> double \<Rightarrow> block_t result" where
  "trapezoid st block entry_factor' exit_factor =
     bind_result (to_int32 (dceil (dmul (of_long (nominal_rate block)) entry_factor')))
       (\<lambda>initial_rate'.
     bind_result (final_rate_of block entry_factor' exit_factor) (\<lambda>final_rate.
     bind_result (int32 (rate_delta block * ACCELERATION_TICKS_PER_SECOND st)) (\<lambda>ticks.
     bind_result (to_int32 (dmul (of_long ticks) (Fin 60))) (\<lambda>acceleration_per_minute.
     bind_result (to_int32 (dceil (estimate_acceleration_distance
        (of_long initial_rate') (of_long (nominal_rate block))
        (of_long acceleration_per_minute)))) (\<lambda>accelerate_steps.
     bind_result (int32 (- acceleration_per_minute)) (\<lambda>braking.
     bind_result (to_int32 (dceil (estimate_acceleration_distance
        (of_long (nominal_rate block)) (of_long final_rate) (of_long braking))))
       (\<lambda>decelerate_steps.
     bind_result (int32 (step_event_count block - accelerate_steps)) (\<lambda>rest.
     bind_result (int32 (rest - decelerate_steps)) (\<lambda>plateau_steps.
     bind_result
       (if plateau_steps < 0 then
          bind_result (to_int32 (dceil (intersection_distance
             (of_long initial_rate') (of_long final_rate)
             (of_long acceleration_per_minute) (of_long (step_event_count block)))))
            (\<lambda>accelerate_steps'.
          bind_result (int32 (2 * accelerate_steps')) (\<lambda>twice.
          bind_result (int32 (step_event_count block - twice)) (\<lambda>plateau_steps'.
          Ok (accelerate_steps', plateau_steps'))))
        else Ok (accelerate_steps, plateau_steps))
       (\<lambda>(accelerate_steps, plateau_steps).
     bind_result (int32 (accelerate_steps + plateau_steps)) (\<lambda>decelerate_after'.
     Ok (block\<lparr>initial_rate := initial_rate',
               accelerate_until := accelerate_steps,
               decelerate_after := decelerate_after'\<rparr>))))))))))))"

text \<open>\<^verbatim>\<open>calculate_trapezoid_for_block(block, entry_factor, exit_factor)\<close>: the block is
  reached through the pointer.\<close>

definition calculate_trapezoid_for_block ::
  "settings_t \<Rightarrow> block_ptr \<Rightarrow> double \<Rightarrow> double \<Rightarrow> planner \<Rightarrow> planner result" where
  "calculate_trapezoid_for_block st block entry_factor' exit_factor s =
     (case block of
        None \<Rightarrow> Fault Null_Deref
      | Some i \<Rightarrow>
          bind_result (trapezoid st (block_buffer s ! i) entry_factor' exit_factor)
            (\<lambda>b. Ok (store i b s)))"

subsection \<open>The two passes over the plan\<close>

definition max_allowable_speed :: "double \<Rightarrow> double \<Rightarrow> double \<Rightarrow> double" where
  "max_allowable_speed acceleration' target_velocity distance =
     dsqrt (dsub (dmul target_velocity target_velocity)
                 (dmul (dmul (Fin 2) acceleration') distance))"

definition pow2 :: "double \<Rightarrow> double" where
  "pow2 x = dmul x x"

definition junction_jerk :: "block_t \<Rightarrow> block_t \<Rightarrow> double" where
  "junction_jerk before after =
     dsqrt (dadd (dadd (pow2 (dsub (speed_x before) (speed_x after)))
                       (pow2 (dsub (speed_y before) (speed_y after))))
                 (pow2 (dsub (speed_z before) (speed_z after))))"

text \<open>The kernel of the reverse pass guards every pointer it reads, so it has no fault.\<close>

definition planner_reverse_pass_kernel ::
  "settings_t \<Rightarrow> block_ptr \<Rightarrow> block_ptr \<Rightarrow> block_ptr \<Rightarrow> planner \<Rightarrow> planner" where
  "planner_reverse_pass_kernel st previous current next s =
     (case current of
        None \<Rightarrow> s
      | Some c \<Rightarrow>
          (let cur = block_buffer s ! c;
               exit_factor =
                 (case next of Some n \<Rightarrow> entry_factor (block_buffer s ! n) | None \<Rightarrow> Fin 0);
               result =
                 (case previous of
                    Some p \<Rightarrow>
                      (let jerk = junction_jerk (block_buffer s ! p) cur;
                           limited = (if dless (max_jerk st) jerk
                                      then ddiv (max_jerk st) jerk else Fin 1)
                       in if dless exit_factor limited then
                            (let max_entry_speed =
                                   max_allowable_speed (dneg (acceleration st))
                                     (dmul (nominal_speed cur) exit_factor) (millimeters cur);
                                 max_entry_factor = ddiv max_entry_speed (nominal_speed cur)
                             in if dless max_entry_factor limited
                                then max_entry_factor else limited)
                          else limited)
                  | None \<Rightarrow> Fin 0)
           in store c (cur\<lparr>entry_factor := result\<rparr>) s))"

text \<open>
  The loop of \<^verbatim>\<open>planner_reverse_pass\<close>: \<open>block_index\<close> is an \<^verbatim>\<open>int8_t\<close>, the window
  is the array \<^verbatim>\<open>block[3]\<close>. A loop that never reaches the tail has the value \<open>None\<close>.
\<close>

partial_function (option) reverse_loop ::
  "settings_t \<Rightarrow> int \<Rightarrow> block_ptr \<times> block_ptr \<times> block_ptr \<Rightarrow> planner \<Rightarrow>
   ((block_ptr \<times> block_ptr \<times> block_ptr) \<times> planner) result option" where
  "reverse_loop st block_index block s =
     (if block_index = block_buffer_tail s then Some (Ok (block, s))
      else (case addr_of s block_index of
              Fault e \<Rightarrow> Some (Fault e)
            | Ok i \<Rightarrow>
                reverse_loop st
                  (to_int8 (c_rem (block_index - 1) (BLOCK_BUFFER_SIZE s)))
                  (Some i, fst block, fst (snd block))
                  (planner_reverse_pass_kernel st (Some i) (fst block) (fst (snd block)) s)))"

definition planner_reverse_pass :: "settings_t \<Rightarrow> planner \<Rightarrow> planner result option" where
  "planner_reverse_pass st s =
     (case reverse_loop st (to_int8 (block_buffer_head s)) (None, None, None) s of
        None \<Rightarrow> None
      | Some (Fault e) \<Rightarrow> Some (Fault e)
      | Some (Ok (block, s')) \<Rightarrow>
          Some (Ok (planner_reverse_pass_kernel st None (fst block) (fst (snd block)) s')))"

text \<open>The kernel of the forward pass reads \<^verbatim>\<open>previous->entry_factor\<close> once it knows
  that \<open>current\<close> is not null; it does not look at \<open>previous\<close> first.\<close>

definition planner_forward_pass_kernel ::
  "settings_t \<Rightarrow> block_ptr \<Rightarrow> block_ptr \<Rightarrow> block_ptr \<Rightarrow> planner \<Rightarrow> planner result" where
  "planner_forward_pass_kernel st previous current next s =
     (case current of
        None \<Rightarrow> Ok s
      | Some c \<Rightarrow>
          (case previous of
             None \<Rightarrow> Fault Null_Deref
           | Some p \<Rightarrow>
               (let prev = block_buffer s ! p; cur = block_buffer s ! c
                in if dless (entry_factor prev) (entry_factor cur) then
                     (let max_entry_speed =
                            max_allowable_speed (dneg (acceleration st))
                              (dmul (nominal_speed cur) (entry_factor prev)) (millimeters prev);
                          max_entry_factor = ddiv max_entry_speed (nominal_speed cur)
                      in if dless max_entry_factor (entry_factor cur)
                         then Ok (store c (cur\<lparr>entry_factor := max_entry_factor\<rparr>) s)
                         else Ok s)
                   else Ok s)))"

partial_function (option) forward_loop ::
  "settings_t \<Rightarrow> int \<Rightarrow> block_ptr \<times> block_ptr \<times> block_ptr \<Rightarrow> planner \<Rightarrow>
   ((block_ptr \<times> block_ptr \<times> block_ptr) \<times> planner) result option" where
  "forward_loop st block_index block s =
     (if block_index = block_buffer_head s then Some (Ok (block, s))
      else (case addr_of s block_index of
              Fault e \<Rightarrow> Some (Fault e)
            | Ok i \<Rightarrow>
                (case planner_forward_pass_kernel st (fst (snd block)) (snd (snd block)) (Some i) s of
                   Fault e \<Rightarrow> Some (Fault e)
                 | Ok s' \<Rightarrow>
                     forward_loop st
                       (to_int8 (c_rem (block_index + 1) (BLOCK_BUFFER_SIZE s')))
                       (fst (snd block), snd (snd block), Some i) s')))"

definition planner_forward_pass :: "settings_t \<Rightarrow> planner \<Rightarrow> planner result option" where
  "planner_forward_pass st s =
     (case forward_loop st (to_int8 (block_buffer_tail s)) (None, None, None) s of
        None \<Rightarrow> None
      | Some (Fault e) \<Rightarrow> Some (Fault e)
      | Some (Ok (block, s')) \<Rightarrow>
          Some (planner_forward_pass_kernel st (fst (snd block)) (snd (snd block)) None s'))"

text \<open>The loop of \<^verbatim>\<open>planner_recalculate_trapezoids\<close> carries \<open>next\<close>; \<open>current\<close> is
  the \<open>next\<close> of the iteration before.\<close>

partial_function (option) trapezoids_loop ::
  "settings_t \<Rightarrow> int \<Rightarrow> block_ptr \<Rightarrow> planner \<Rightarrow> (block_ptr \<times> planner) result option" where
  "trapezoids_loop st block_index next s =
     (if block_index = block_buffer_head s then Some (Ok (next, s))
      else (case addr_of s block_index of
              Fault e \<Rightarrow> Some (Fault e)
            | Ok i \<Rightarrow>
                (case (case next of
                         None \<Rightarrow> Ok s
                       | Some c \<Rightarrow>
                           calculate_trapezoid_for_block st (Some c)
                             (entry_factor (block_buffer s ! c))
                             (entry_factor (block_buffer s ! i)) s) of
                   Fault e \<Rightarrow> Some (Fault e)
                 | Ok s' \<Rightarrow>
                     trapezoids_loop st
                       (to_int8 (c_rem (block_index + 1) (BLOCK_BUFFER_SIZE s')))
                       (Some i) s')))"

definition planner_recalculate_trapezoids ::
  "settings_t \<Rightarrow> planner \<Rightarrow> planner result option" where
  "planner_recalculate_trapezoids st s =
     (case trapezoids_loop st (to_int8 (block_buffer_tail s)) None s of
        None \<Rightarrow> None
      | Some (Fault e) \<Rightarrow> Some (Fault e)
      | Some (Ok (next, s')) \<Rightarrow>
          (case next of
             None \<Rightarrow> Some (Fault Null_Deref)
           | Some n \<Rightarrow>
               Some (calculate_trapezoid_for_block st (Some n)
                       (entry_factor (block_buffer s' ! n)) (Fin 0) s')))"

definition planner_recalculate :: "settings_t \<Rightarrow> planner \<Rightarrow> planner result option" where
  "planner_recalculate st s =
     (case planner_reverse_pass st s of
        None \<Rightarrow> None
      | Some (Fault e) \<Rightarrow> Some (Fault e)
      | Some (Ok s1) \<Rightarrow>
          (case planner_forward_pass st s1 of
             None \<Rightarrow> None
           | Some (Fault e) \<Rightarrow> Some (Fault e)
           | Some (Ok s2) \<Rightarrow> planner_recalculate_trapezoids st s2))"

subsection \<open>Admission of a line\<close>

definition labs :: "int \<Rightarrow> int result" where
  "labs n = int32 \<bar>n\<bar>"

text \<open>Lines 318 to 321 of \<^verbatim>\<open>plan_buffer_line\<close>: the step counts of the new block.\<close>

definition block_steps :: "int \<Rightarrow> int \<Rightarrow> int \<Rightarrow> block_t \<Rightarrow> block_t result" where
  "block_steps steps_x' steps_y' steps_z' block =
     bind_result (labs steps_x') (\<lambda>x.
     bind_result (labs steps_y') (\<lambda>y.
     bind_result (labs steps_z') (\<lambda>z.
     Ok (block\<lparr>steps_x := x, steps_y := y, steps_z := z,
               step_event_count := max x (max y z)\<rparr>))))"

text \<open>Lines 325 to 354: speeds, rates, the first trapezoid and the direction bits.\<close>

definition block_profile ::
  "settings_t \<Rightarrow> bool \<Rightarrow> int \<Rightarrow> int \<Rightarrow> int \<Rightarrow> int \<Rightarrow> double \<Rightarrow> block_t \<Rightarrow> block_t result" where
  "block_profile st management steps_x' steps_y' steps_z' microseconds millimeters' block =
     (let multiplier = ddiv (dmul (Fin 60) (Fin 1000000)) (of_long microseconds);
          block1 = block\<lparr>
            speed_x := ddiv (dmul (of_long (steps_x block)) multiplier) (fst (steps_per_mm st)),
            speed_y := ddiv (dmul (of_long (steps_y block)) multiplier)
                         (fst (snd (steps_per_mm st))),
            speed_z := ddiv (dmul (of_long (steps_z block)) multiplier)
                         (snd (snd (steps_per_mm st))),
            nominal_speed := dmul millimeters' multiplier\<rparr>;
          travel_per_step = ddiv millimeters' (of_long (step_event_count block))
      in
        bind_result (to_int32 (dceil (dmul (of_long (step_event_count block)) multiplier)))
          (\<lambda>nominal_rate'.
        bind_result (to_int32 (dceil (ddiv
            (ddiv (dmul (acceleration st) (Fin 60))
                  (of_long (ACCELERATION_TICKS_PER_SECOND st)))
            travel_per_step))) (\<lambda>rate_delta'.
        bind_result
          (if management then
             trapezoid st (block1\<lparr>nominal_rate := nominal_rate', rate_delta := rate_delta'\<rparr>)
               (Fin 0) (Fin 0)
           else
             Ok (block1\<lparr>nominal_rate := nominal_rate', rate_delta := 0,
                        accelerate_until := 0, decelerate_after := 0\<rparr>)) (\<lambda>block2.
        Ok (block2\<lparr>direction_bits :=
              (if steps_x' < 0 then push_bit (X_DIRECTION_BIT st) 1 else 0) OR
              (if steps_y' < 0 then push_bit (Y_DIRECTION_BIT st) 1 else 0) OR
              (if steps_z' < 0 then push_bit (Z_DIRECTION_BIT st) 1 else 0)\<rparr>)))))"

text \<open>
  \<^verbatim>\<open>plan_buffer_line\<close>. Nothing in this model drains the queue, so the wait on a full
  queue (line 314) never ends: the call has the value \<open>None\<close> there.
\<close>

definition plan_buffer_line ::
  "settings_t \<Rightarrow> int \<Rightarrow> int \<Rightarrow> int \<Rightarrow> int \<Rightarrow> double \<Rightarrow> planner \<Rightarrow> planner result option" where
  "plan_buffer_line st steps_x' steps_y' steps_z' microseconds millimeters' s =
     (let next_buffer_head = c_rem (block_buffer_head s + 1) (BLOCK_BUFFER_SIZE s)
      in if block_buffer_tail s = next_buffer_head then None
         else
           (case bind_result (addr_of s (block_buffer_head s)) (\<lambda>h.
                 bind_result (block_steps steps_x' steps_y' steps_z' (block_buffer s ! h))
                   (\<lambda>block. Ok (h, block))) of
              Fault e \<Rightarrow> Some (Fault e)
            | Ok (h, block) \<Rightarrow>
                if step_event_count block = 0 then Some (Ok (store h block s))
                else
                  (case block_profile st (acceleration_management s)
                          steps_x' steps_y' steps_z' microseconds millimeters' block of
                     Fault e \<Rightarrow> Some (Fault e)
                   | Ok block' \<Rightarrow>
                       (let s' = (store h block' s)\<lparr>block_buffer_head := next_buffer_head\<rparr>
                        in if acceleration_management s then planner_recalculate st s'
                           else Some (calculate_trapezoid_for_block st (Some h)
                                        (Fin 1) (Fin 1) s')))))"

subsection \<open>The queue and some concrete states\<close>

text \<open>The queued blocks are those in the slots from the tail up to, but excluding,
  the head, in ring order.\<close>

definition queue_slots :: "planner \<Rightarrow> nat list" where
  "queue_slots s =
     map (\<lambda>k. nat ((block_buffer_tail s + int k) mod BLOCK_BUFFER_SIZE s))
       [0 ..< nat ((block_buffer_head s - block_buffer_tail s) mod BLOCK_BUFFER_SIZE s)]"

definition queued_blocks :: "planner \<Rightarrow> block_t list" where
  "queued_blocks s = map (\<lambda>i. block_buffer s ! i) (queue_slots s)"

text \<open>A slot as C's static initialisation leaves it.\<close>

definition zero_block :: block_t where
  "zero_block =
     \<lparr>steps_x = 0, steps_y = 0, steps_z = 0, direction_bits = 0, step_event_count = 0,
      nominal_rate = 0, speed_x = Fin 0, speed_y = Fin 0, speed_z = Fin 0,
      nominal_speed = Fin 0, millimeters = Fin 0, entry_factor = Fin 0,
      initial_rate = 0, rate_delta = 0, accelerate_until = 0, decelerate_after = 0\<rparr>"

text \<open>The settings of the spec's first scenario.\<close>

definition scenario_settings :: settings_t where
  "scenario_settings =
     \<lparr>acceleration = Fin 1000, max_jerk = Fin 5,
      steps_per_mm = (Fin 100, Fin 100, Fin 100),
      ACCELERATION_TICKS_PER_SECOND = 40,
      X_DIRECTION_BIT = 5, Y_DIRECTION_BIT = 6, Z_DIRECTION_BIT = 7\<rparr>"

definition ring :: "block_t list \<Rightarrow> int \<Rightarrow> int \<Rightarrow> bool \<Rightarrow> planner" where
  "ring slots head tail management =
     \<lparr>block_buffer = slots, block_buffer_head = head, block_buffer_tail = tail,
      acceleration_management = management\<rparr>"

text \<open>A move of 1000 step events at 60000 step events per minute.\<close>

definition cruise_block :: block_t where
  "cruise_block = zero_block\<lparr>step_event_count := 1000, nominal_rate := 60000, rate_delta := 10\<rparr>"

text \<open>The block that \<^verbatim>\<open>plan_buffer_line(1000, 0, 0, 1000000, 10.0)\<close> builds under
  \<open>scenario_settings\<close> with acceleration management on, and the one that
  \<^verbatim>\<open>plan_buffer_line(1, 0, 0, 1000000, 0.01)\<close> builds. No line of the source writes
  \<open>millimeters\<close> or, at admission, \<open>entry_factor\<close>: both keep the value of the slot.\<close>

definition x_move_block :: block_t where
  "x_move_block =
     \<lparr>steps_x = 1000, steps_y = 0, steps_z = 0, direction_bits = 0, step_event_count = 1000,
      nominal_rate = 60000, speed_x = Fin 600, speed_y = Fin 0, speed_z = Fin 0,
      nominal_speed = Fin 600, millimeters = Fin 0, entry_factor = Fin 0,
      initial_rate = 0, rate_delta = 150000, accelerate_until = 5, decelerate_after = 995\<rparr>"

definition short_block :: block_t where
  "short_block =
     \<lparr>steps_x = 1, steps_y = 0, steps_z = 0, direction_bits = 0, step_event_count = 1,
      nominal_rate = 60, speed_x = Fin (3/5), speed_y = Fin 0, speed_z = Fin 0,
      nominal_speed = Fin (3/5), millimeters = Fin 0, entry_factor = Fin 0,
      initial_rate = 0, rate_delta = 150000, accelerate_until = 1, decelerate_after = 0\<rparr>"

subsection \<open>The forward pass on a machine that reads through the null pointer\<close>

text \<open>
  C gives no meaning to \<^verbatim>\<open>previous->entry_factor\<close> when \<open>previous\<close> is null, and
  \<open>planner_forward_pass_kernel\<close> above ends there. On the processor the firmware is
  written for, address 0 is data memory like any other and the load returns what is
  stored there. The definitions of this subsection are those of the forward pass, the
  recalculation and the admission once more, with one difference: a read through the
  null \<open>previous\<close> yields the block \<open>at_null\<close>, a parameter that stands for whatever
  the memory at address 0 holds. Nothing is written through \<open>previous\<close>. The last call
  of \<^verbatim>\<open>planner_recalculate_trapezoids\<close> on an empty queue writes through a null
  pointer; it stays a fault.
\<close>

definition planner_forward_pass_kernel_reading ::
  "block_t \<Rightarrow> settings_t \<Rightarrow> block_ptr \<Rightarrow> block_ptr \<Rightarrow> block_ptr \<Rightarrow> planner \<Rightarrow>
   planner result" where
  "planner_forward_pass_kernel_reading at_null st previous current next s =
     (case current of
        None \<Rightarrow> Ok s
      | Some c \<Rightarrow>
          (let prev = (case previous of None \<Rightarrow> at_null | Some p \<Rightarrow> block_buffer s ! p);
               cur = block_buffer s ! c
           in if dless (entry_factor prev) (entry_factor cur) then
                (let max_entry_speed =
                       max_allowable_speed (dneg (acceleration st))
                         (dmul (nominal_speed cur) (entry_factor prev)) (millimeters prev);
                     max_entry_factor = ddiv max_entry_speed (nominal_speed cur)
                 in if dless max_entry_factor (entry_factor cur)
                    then Ok (store c (cur\<lparr>entry_factor := max_entry_factor\<rparr>) s)
                    else Ok s)
              else Ok s))"

partial_function (option) forward_loop_reading ::
  "block_t \<Rightarrow> settings_t \<Rightarrow> int \<Rightarrow> block_ptr \<times> block_ptr \<times> block_ptr \<Rightarrow> planner \<Rightarrow>
   ((block_ptr \<times> block_ptr \<times> block_ptr) \<times> planner) result option" where
  "forward_loop_reading at_null st block_index block s =
     (if block_index = block_buffer_head s then Some (Ok (block, s))
      else (case addr_of s block_index of
              Fault e \<Rightarrow> Some (Fault e)
            | Ok i \<Rightarrow>
                (case planner_forward_pass_kernel_reading at_null st
                        (fst (snd block)) (snd (snd block)) (Some i) s of
                   Fault e \<Rightarrow> Some (Fault e)
                 | Ok s' \<Rightarrow>
                     forward_loop_reading at_null st
                       (to_int8 (c_rem (block_index + 1) (BLOCK_BUFFER_SIZE s')))
                       (fst (snd block), snd (snd block), Some i) s')))"

definition planner_forward_pass_reading ::
  "block_t \<Rightarrow> settings_t \<Rightarrow> planner \<Rightarrow> planner result option" where
  "planner_forward_pass_reading at_null st s =
     (case forward_loop_reading at_null st (to_int8 (block_buffer_tail s)) (None, None, None) s of
        None \<Rightarrow> None
      | Some (Fault e) \<Rightarrow> Some (Fault e)
      | Some (Ok (block, s')) \<Rightarrow>
          Some (planner_forward_pass_kernel_reading at_null st
                  (fst (snd block)) (snd (snd block)) None s'))"

definition planner_recalculate_reading ::
  "block_t \<Rightarrow> settings_t \<Rightarrow> planner \<Rightarrow> planner result option" where
  "planner_recalculate_reading at_null st s =
     (case planner_reverse_pass st s of
        None \<Rightarrow> None
      | Some (Fault e) \<Rightarrow> Some (Fault e)
      | Some (Ok s1) \<Rightarrow>
          (case planner_forward_pass_reading at_null st s1 of
             None \<Rightarrow> None
           | Some (Fault e) \<Rightarrow> Some (Fault e)
           | Some (Ok s2) \<Rightarrow> planner_recalculate_trapezoids st s2))"

definition plan_buffer_line_reading ::
  "block_t \<Rightarrow> settings_t \<Rightarrow> int \<Rightarrow> int \<Rightarrow> int \<Rightarrow> int \<Rightarrow> double \<Rightarrow> planner \<Rightarrow>
   planner result option" where
  "plan_buffer_line_reading at_null st steps_x' steps_y' steps_z' microseconds millimeters' s =
     (let next_buffer_head = c_rem (block_buffer_head s + 1) (BLOCK_BUFFER_SIZE s)
      in if block_buffer_tail s = next_buffer_head then None
         else
           (case bind_result (addr_of s (block_buffer_head s)) (\<lambda>h.
                 bind_result (block_steps steps_x' steps_y' steps_z' (block_buffer s ! h))
                   (\<lambda>block. Ok (h, block))) of
              Fault e \<Rightarrow> Some (Fault e)
            | Ok (h, block) \<Rightarrow>
                if step_event_count block = 0 then Some (Ok (store h block s))
                else
                  (case block_profile st (acceleration_management s)
                          steps_x' steps_y' steps_z' microseconds millimeters' block of
                     Fault e \<Rightarrow> Some (Fault e)
                   | Ok block' \<Rightarrow>
                       (let s' = (store h block' s)\<lparr>block_buffer_head := next_buffer_head\<rparr>
                        in if acceleration_management s
                           then planner_recalculate_reading at_null st s'
                           else Some (calculate_trapezoid_for_block st (Some h)
                                        (Fin 1) (Fin 1) s')))))"

subsection \<open>Properties of the plan\<close>

text \<open>An entry factor is a number in \<open>[0, 1]\<close>; a speed is a number that is not
  negative.\<close>

definition unit_range :: "double \<Rightarrow> bool" where
  "unit_range d = (case d of Fin e \<Rightarrow> 0 \<le> e \<and> e \<le> 1 | _ \<Rightarrow> False)"

definition nonnegative :: "double \<Rightarrow> bool" where
  "nonnegative d = (case d of Fin v \<Rightarrow> 0 \<le> v | _ \<Rightarrow> False)"

definition is_number :: "double \<Rightarrow> bool" where
  "is_number d = (case d of Fin v \<Rightarrow> True | _ \<Rightarrow> False)"

definition factor_sound :: "block_t \<Rightarrow> bool" where
  "factor_sound b = (unit_range (entry_factor b) \<and> nonnegative (nominal_speed b))"

definition speeds_finite :: "block_t \<Rightarrow> bool" where
  "speeds_finite b = (is_number (speed_x b) \<and> is_number (speed_y b) \<and> is_number (speed_z b))"

text \<open>The junction jerk between an earlier block \<open>a\<close> and a later block \<open>b\<close>, scaled by
  the entry factor of \<open>b\<close>, is a number and at most \<open>max_jerk\<close>.\<close>

definition jerk_within :: "settings_t \<Rightarrow> block_t \<Rightarrow> block_t \<Rightarrow> bool" where
  "jerk_within st a b =
     (case (junction_jerk a b, entry_factor b, max_jerk st) of
        (Fin x, Fin e, Fin j) \<Rightarrow> x * e \<le> j
      | _ \<Rightarrow> False)"

definition jerk_bounded :: "settings_t \<Rightarrow> planner \<Rightarrow> bool" where
  "jerk_bounded st s =
     list_all (\<lambda>(a, b). jerk_within st a b) (zip (queued_blocks s) (tl (queued_blocks s)))"

subsection \<open>What the kernels store\<close>

text \<open>A slot of the buffer, and the exit factor that the reverse kernel reads through
  \<open>next\<close>.\<close>

definition slot :: "planner \<Rightarrow> nat \<Rightarrow> block_t" where
  "slot s k = block_buffer s ! k"

definition exit_at :: "planner \<Rightarrow> block_ptr \<Rightarrow> double" where
  "exit_at s next = (case next of Some n \<Rightarrow> entry_factor (slot s n) | None \<Rightarrow> Fin 0)"

text \<open>The value that \<^verbatim>\<open>planner_reverse_pass_kernel\<close> stores in \<^verbatim>\<open>current->entry_factor\<close>
  (lines 163 to 193), and the value that the forward kernel leaves there (lines 216 to
  225), as functions of the blocks they read.\<close>

definition reverse_entry_factor :: "settings_t \<Rightarrow> block_t option \<Rightarrow> block_t \<Rightarrow> double \<Rightarrow> double" where
  "reverse_entry_factor st previous cur exit_factor =
     (case previous of
        Some prev \<Rightarrow>
          (let jerk = junction_jerk prev cur;
               limited = (if dless (max_jerk st) jerk then ddiv (max_jerk st) jerk else Fin 1)
           in if dless exit_factor limited then
                (let max_entry_speed =
                       max_allowable_speed (dneg (acceleration st))
                         (dmul (nominal_speed cur) exit_factor) (millimeters cur);
                     max_entry_factor = ddiv max_entry_speed (nominal_speed cur)
                 in if dless max_entry_factor limited then max_entry_factor else limited)
              else limited)
      | None \<Rightarrow> Fin 0)"

definition forward_entry_factor :: "settings_t \<Rightarrow> block_t \<Rightarrow> block_t \<Rightarrow> double" where
  "forward_entry_factor st prev cur =
     (if dless (entry_factor prev) (entry_factor cur) then
        (let max_entry_speed =
               max_allowable_speed (dneg (acceleration st))
                 (dmul (nominal_speed cur) (entry_factor prev)) (millimeters prev);
             max_entry_factor = ddiv max_entry_speed (nominal_speed cur)
         in if dless max_entry_factor (entry_factor cur) then max_entry_factor
            else entry_factor cur)
      else entry_factor cur)"

text \<open>One iteration of the loop of \<^verbatim>\<open>planner_recalculate_trapezoids\<close>: the trapezoid
  of the block fetched one iteration before, with the entry factor of the block fetched
  now as its exit factor.\<close>

definition trapezoid_step :: "settings_t \<Rightarrow> block_ptr \<Rightarrow> nat \<Rightarrow> planner \<Rightarrow> planner result" where
  "trapezoid_step st next i s =
     (case next of
        None \<Rightarrow> Ok s
      | Some c \<Rightarrow>
          calculate_trapezoid_for_block st (Some c)
            (entry_factor (block_buffer s ! c))
            (entry_factor (block_buffer s ! i)) s)"

text \<open>A property of blocks is kept by the passes when it bounds the entry factor and the
  nominal speed and does not depend on the fields that the passes write.\<close>

definition kept :: "(block_t \<Rightarrow> bool) \<Rightarrow> bool" where
  "kept P = ((\<forall>b. P b \<longrightarrow> factor_sound b) \<and>
     (\<forall>b r. P b \<longrightarrow> unit_range r \<longrightarrow> P (b\<lparr>entry_factor := r\<rparr>)) \<and>
     (\<forall>b ir au da. P b \<longrightarrow>
        P (b\<lparr>initial_rate := ir, accelerate_until := au, decelerate_after := da\<rparr>)))"

text \<open>Two states with the same indices, mode and buffer size.\<close>

definition same_shape :: "planner \<Rightarrow> planner \<Rightarrow> bool" where
  "same_shape s s' =
     (block_buffer_head s' = block_buffer_head s \<and> block_buffer_tail s' = block_buffer_tail s \<and>
      acceleration_management s' = acceleration_management s \<and>
      length (block_buffer s') = length (block_buffer s))"

text \<open>The junctions of the slots \<open>lo\<close> to \<open>hi\<close> are within the jerk limit; the pointer
  to slot \<open>k\<close> of a walk that started at slot \<open>hi\<close>.\<close>

definition pairs_within :: "settings_t \<Rightarrow> planner \<Rightarrow> int \<Rightarrow> int \<Rightarrow> bool" where
  "pairs_within st s lo hi =
     (\<forall>j. lo < j \<and> j \<le> hi \<longrightarrow> jerk_within st (slot s (nat (j - 1))) (slot s (nat j)))"

definition ptr_upto :: "int \<Rightarrow> int \<Rightarrow> block_ptr" where
  "ptr_upto hi k = (if k \<le> hi then Some (nat k) else None)"

text \<open>The block that \<^verbatim>\<open>plan_buffer_line(0, 1000, 0, 1000000, 10.0)\<close> builds under
  \<open>scenario_settings\<close>.\<close>

definition y_move_block :: block_t where
  "y_move_block =
     \<lparr>steps_x = 0, steps_y = 1000, steps_z = 0, direction_bits = 0, step_event_count = 1000,
      nominal_rate = 60000, speed_x = Fin 0, speed_y = Fin 600, speed_z = Fin 0,
      nominal_speed = Fin 600, millimeters = Fin 0, entry_factor = Fin 0,
      initial_rate = 0, rate_delta = 150000, accelerate_until = 5, decelerate_after = 995\<rparr>"

text \<open>The block without the four fields that the passes write, and the three of them
  that phase 3 writes.\<close>

definition unplanned :: "block_t \<Rightarrow> block_t" where
  "unplanned b =
     b\<lparr>entry_factor := Fin 0, initial_rate := 0, accelerate_until := 0, decelerate_after := 0\<rparr>"

definition profile_of :: "block_t \<Rightarrow> int \<times> int \<times> int" where
  "profile_of b = (initial_rate b, accelerate_until b, decelerate_after b)"

text \<open>Two states of the same shape whose slots agree on the fields that the passes do
  not write, on the entry factor at the slots in \<open>E\<close> and on the three fields of phase 3
  at the slots in \<open>P\<close>.\<close>

definition alike :: "(nat \<Rightarrow> bool) \<Rightarrow> (nat \<Rightarrow> bool) \<Rightarrow> planner \<Rightarrow> planner \<Rightarrow> bool" where
  "alike E P s t =
     (same_shape s t \<and>
      (\<forall>c < length (block_buffer s).
         unplanned (slot t c) = unplanned (slot s c) \<and>
         (E c \<longrightarrow> entry_factor (slot t c) = entry_factor (slot s c)) \<and>
         (P c \<longrightarrow> profile_of (slot t c) = profile_of (slot s c))))"

text \<open>The pointer to slot \<open>k\<close> of a walk that started at slot \<open>lo\<close>.\<close>

definition ptr_from :: "int \<Rightarrow> int \<Rightarrow> block_ptr" where
  "ptr_from lo k = (if lo \<le> k then Some (nat k) else None)"

section \<open>Evaluation of the model\<close>

text \<open>The loops are least fixed points; these equations unfold one iteration when its
  guard is known.\<close>

lemma reverse_loop_exit:
  "block_index = block_buffer_tail s \<Longrightarrow>
   reverse_loop st block_index block s = Some (Ok (block, s))"
  by (subst reverse_loop.simps) simp

lemma reverse_loop_fault:
  "block_index \<noteq> block_buffer_tail s \<Longrightarrow> addr_of s block_index = Fault e \<Longrightarrow>
   reverse_loop st block_index block s = Some (Fault e)"
  by (subst reverse_loop.simps) simp

lemma reverse_loop_step:
  "block_index \<noteq> block_buffer_tail s \<Longrightarrow> addr_of s block_index = Ok i \<Longrightarrow>
   reverse_loop st block_index block s =
     reverse_loop st (to_int8 (c_rem (block_index - 1) (BLOCK_BUFFER_SIZE s)))
       (Some i, fst block, fst (snd block))
       (planner_reverse_pass_kernel st (Some i) (fst block) (fst (snd block)) s)"
  by (subst reverse_loop.simps) simp

lemma forward_loop_exit:
  "block_index = block_buffer_head s \<Longrightarrow>
   forward_loop st block_index block s = Some (Ok (block, s))"
  by (subst forward_loop.simps) simp

lemma forward_loop_fault:
  "block_index \<noteq> block_buffer_head s \<Longrightarrow> addr_of s block_index = Fault e \<Longrightarrow>
   forward_loop st block_index block s = Some (Fault e)"
  by (subst forward_loop.simps) simp

lemma forward_loop_kernel_fault:
  "block_index \<noteq> block_buffer_head s \<Longrightarrow> addr_of s block_index = Ok i \<Longrightarrow>
   planner_forward_pass_kernel st (fst (snd block)) (snd (snd block)) (Some i) s = Fault e \<Longrightarrow>
   forward_loop st block_index block s = Some (Fault e)"
  by (subst forward_loop.simps) simp

lemma forward_loop_step:
  "block_index \<noteq> block_buffer_head s \<Longrightarrow> addr_of s block_index = Ok i \<Longrightarrow>
   planner_forward_pass_kernel st (fst (snd block)) (snd (snd block)) (Some i) s = Ok s' \<Longrightarrow>
   forward_loop st block_index block s =
     forward_loop st (to_int8 (c_rem (block_index + 1) (BLOCK_BUFFER_SIZE s')))
       (fst (snd block), snd (snd block), Some i) s'"
  by (subst forward_loop.simps) simp

lemma trapezoids_loop_exit:
  "block_index = block_buffer_head s \<Longrightarrow>
   trapezoids_loop st block_index next s = Some (Ok (next, s))"
  by (subst trapezoids_loop.simps) simp

lemma ceiling_unit_fraction: "0 < x \<Longrightarrow> x \<le> 1 \<Longrightarrow> \<lceil>x :: real\<rceil> = 1"
  by (simp add: ceiling_eq_iff)

lemma sqrt_360000: "sqrt 360000 = 600"
  by (rule real_sqrt_unique) simp_all

lemmas double_simps = dsub_def pow2_def signed_inf_def of_long_def in_int32_def int32_def
  bind_result_def Let_def ceiling_unit_fraction sqrt_360000

lemmas state_simps = ring_def zero_block_def x_move_block_def short_block_def
  scenario_settings_def addr_of_def BLOCK_BUFFER_SIZE_def to_int8_def c_rem_def store_def

lemmas pass_simps = planner_reverse_pass_def planner_forward_pass_def
  reverse_loop_exit reverse_loop_fault reverse_loop_step
  forward_loop_exit forward_loop_fault forward_loop_kernel_fault forward_loop_step
  planner_reverse_pass_kernel_def planner_forward_pass_kernel_def
  junction_jerk_def max_allowable_speed_def planner_recalculate_def

lemmas admit_simps = plan_buffer_line_def block_steps_def labs_def block_profile_def
  calculate_trapezoid_for_block_def trapezoid_def final_rate_of_def
  estimate_acceleration_distance_def intersection_distance_def

lemma first_admission_block:
  "bind_result (block_steps 1000 0 0 zero_block)
     (block_profile scenario_settings True 1000 0 0 1000000 (Fin 10)) = Ok x_move_block"
  by (simp add: admit_simps state_simps double_simps)

section \<open>The trapezoid generator\<close>

lemma trapezoid_exit_factor_irrelevant:
  "trapezoid st block entry_factor' exit_factor = trapezoid st block entry_factor' (Fin 0)"
  by (simp add: trapezoid_def final_rate_of_def)

text \<open>With \<open>rate_delta = 0\<close> the acceleration is 0, and a trapezoid for the factors
  \<open>(1, 1)\<close> divides \<open>0\<close> by \<open>0\<close>.\<close>

lemma to_int32_whole:
  "to_int32 (dceil (dmul (of_long n) (Fin 1))) =
     (if in_int32 n then Ok n else Fault (Not_Representable (Fin (of_int n))))"
  by (simp add: of_long_def)

lemma constant_rate_trapezoid_faults:
  assumes "rate_delta block = 0"
  shows "\<exists>e. trapezoid st block (Fin 1) (Fin 1) = Fault e"
proof (cases "in_int32 (nominal_rate block)")
  case False
  then show ?thesis
    by (simp add: trapezoid_def to_int32_whole bind_result_def)
next
  case True
  have stop: "to_int32 (dceil (estimate_acceleration_distance (of_long (nominal_rate block))
      (of_long (nominal_rate block)) (of_long 0))) = Fault (Not_Representable NaN)"
    by (simp add: estimate_acceleration_distance_def dsub_def of_long_def signed_inf_def)
  have zero: "int32 0 = Ok 0" "to_int32 (dmul (of_long 0) (Fin 60)) = Ok 0"
    by (simp_all add: int32_def in_int32_def of_long_def)
  from True assms show ?thesis
    by (simp add: trapezoid_def final_rate_of_def to_int32_whole bind_result_def zero stop)
qed

text \<open>
  Claim C1 says that \<^verbatim>\<open>calculate_trapezoid_for_block\<close> computes
  \<open>final_rate = ceil(nominal_rate * exit_factor)\<close>, so that with \<open>exit_factor = 0\<close> the
  block brakes to rest. The code computes \<open>final_rate\<close> from \<open>entry_factor\<close>: for a
  block of 1000 step events at a nominal rate of 60000, entered at full speed
  (\<open>entry_factor = 1\<close>) and asked to end at rest (\<open>exit_factor = 0\<close>), the final rate is
  60000, not 0, and the profile has no deceleration at all: \<open>decelerate_after\<close> is the
  last step event.
\<close>

theorem final_rate_ignores_exit_factor:
  "final_rate_of cruise_block (Fin 1) (Fin 0) = Ok 60000 \<and>
   trapezoid scenario_settings cruise_block (Fin 1) (Fin 0) =
     Ok (cruise_block\<lparr>initial_rate := 60000, accelerate_until := 0,
                       decelerate_after := 1000\<rparr>)"
  by (simp add: admit_simps cruise_block_def state_simps double_simps)

text \<open>
  Claim C5 says that every queued block has
  \<open>0 \<le> accelerate_until \<le> decelerate_after \<le> step_event_count\<close> after an admission.
  A move of a single step, \<^verbatim>\<open>plan_buffer_line(1, 0, 0, 1000000, 0.01)\<close>, is too short to
  reach its nominal rate; the intersection branch gives \<open>accelerate_steps = 1\<close> and
  \<open>plateau_steps = 1 - 2 = -1\<close>, so the block is published with
  \<open>accelerate_until = 1\<close> and \<open>decelerate_after = 0\<close>. Phase 3 of the recalculation
  computes the same profile again for this block (entry factor 0, exit factor 0).
\<close>

theorem admission_trapezoid_out_of_order:
  "bind_result (block_steps 1 0 0 zero_block)
     (block_profile scenario_settings True 1 0 0 1000000 (Fin (1/100))) = Ok short_block \<and>
   trapezoid scenario_settings short_block (entry_factor short_block) (Fin 0) = Ok short_block \<and>
   decelerate_after short_block < accelerate_until short_block"
  by (simp add: admit_simps state_simps double_simps)

section \<open>The reverse pass\<close>

text \<open>
  What the kernel of the reverse pass stores, when the jerk limit is positive and the
  nominal speed of the block is not negative, is a number in \<open>[0, 1]\<close>, and it keeps
  the junction jerk, scaled by it, within the limit.
\<close>

lemma dsqrt_cases:
  "(\<exists>m. dsqrt x = Fin m \<and> 0 \<le> m) \<or> dsqrt x = PInf \<or> dsqrt x = NaN"
  by (cases x) auto

lemma limited_range:
  assumes "0 < j"
  shows "\<exists>l. (if dless (Fin j) J then ddiv (Fin j) J else Fin 1) = Fin l \<and> 0 \<le> l \<and> l \<le> 1
     \<and> (\<forall>x. J = Fin x \<longrightarrow> 0 \<le> x \<longrightarrow> x * l \<le> j)"
  using assms by (cases J) (auto simp: mult_left_le)

lemma capped_range:
  assumes "0 \<le> l" "l \<le> 1" "0 \<le> v"
    and "(\<exists>m. S = Fin m \<and> 0 \<le> m) \<or> S = PInf \<or> S = NaN"
  shows "\<exists>e. (if dless (ddiv S (Fin v)) (Fin l) then ddiv S (Fin v) else Fin l) = Fin e
     \<and> 0 \<le> e \<and> e \<le> l"
  using assms by (auto simp: signed_inf_def)

lemma reverse_kernel_entry_factor:
  assumes "max_jerk st = Fin j" "0 < j"
    and "c < length (block_buffer s)"
    and "nominal_speed (block_buffer s ! c) = Fin v" "0 \<le> v"
  shows "\<exists>e. entry_factor (block_buffer (planner_reverse_pass_kernel st previous (Some c) next s) ! c)
           = Fin e \<and> 0 \<le> e \<and> e \<le> 1 \<and>
         (\<forall>p x. previous = Some p \<longrightarrow>
             junction_jerk (block_buffer s ! p) (block_buffer s ! c) = Fin x \<longrightarrow> x * e \<le> j)"
proof (cases previous)
  case None
  with assms show ?thesis
    by (simp add: planner_reverse_pass_kernel_def store_def)
next
  case (Some p)
  define cur where "cur = block_buffer s ! c"
  define J where "J = junction_jerk (block_buffer s ! p) cur"
  define E where "E = (case next of Some n \<Rightarrow> entry_factor (block_buffer s ! n) | None \<Rightarrow> Fin 0)"
  define S where "S = max_allowable_speed (dneg (acceleration st)) (dmul (nominal_speed cur) E)
              (millimeters cur)"
  define L where "L = (if dless (max_jerk st) J then ddiv (max_jerk st) J else Fin 1)"
  define M where "M = (if dless (ddiv S (nominal_speed cur)) L then ddiv S (nominal_speed cur) else L)"
  have stored: "entry_factor (block_buffer (planner_reverse_pass_kernel st previous (Some c) next s) ! c)
      = (if dless E L then M else L)"
    using Some assms(3)
    by (simp add: planner_reverse_pass_kernel_def store_def Let_def cur_def J_def E_def S_def
        L_def M_def)
  from limited_range [OF assms(2), of J] obtain l where
    l: "L = Fin l" "0 \<le> l" "l \<le> 1"
    and jl: "\<And>x. J = Fin x \<Longrightarrow> 0 \<le> x \<Longrightarrow> x * l \<le> j"
    unfolding L_def assms(1) by blast
  have "(\<exists>m. S = Fin m \<and> 0 \<le> m) \<or> S = PInf \<or> S = NaN"
    unfolding S_def max_allowable_speed_def by (rule dsqrt_cases)
  from capped_range [OF l(2,3) assms(5) this] obtain e where
    e: "M = Fin e" "0 \<le> e" "e \<le> l"
    unfolding M_def l(1) cur_def assms(4) by blast
  obtain r where r: "(if dless E L then M else L) = Fin r" "0 \<le> r" "r \<le> l"
    using e l by (cases "dless E L") auto
  have "x * r \<le> j" if "J = Fin x" for x
  proof -
    from that have "0 \<le> x"
      unfolding J_def junction_jerk_def
      using dsqrt_cases [of "dadd (dadd (pow2 (dsub (speed_x (block_buffer s ! p)) (speed_x cur)))
          (pow2 (dsub (speed_y (block_buffer s ! p)) (speed_y cur))))
          (pow2 (dsub (speed_z (block_buffer s ! p)) (speed_z cur)))"]
      by auto
    with r jl [OF that] show ?thesis
      using mult_left_mono [of r l x] by simp
  qed
  with stored r l(3) Some show ?thesis
    by (auto simp: J_def cur_def)
qed

text \<open>
  When the head is below the tail, the index of the reverse pass counts down to 0 and
  leaves the array at \<open>-1\<close> before it can meet the tail.
\<close>

lemma kernel_tail:
  "block_buffer_tail (planner_reverse_pass_kernel st p c n s) = block_buffer_tail s"
  by (simp add: planner_reverse_pass_kernel_def store_def Let_def split: option.splits)

lemma kernel_size:
  "BLOCK_BUFFER_SIZE (planner_reverse_pass_kernel st p c n s) = BLOCK_BUFFER_SIZE s"
  by (simp add: planner_reverse_pass_kernel_def store_def Let_def BLOCK_BUFFER_SIZE_def
      split: option.splits)

lemma to_int8_small: "- 128 \<le> n \<Longrightarrow> n < 128 \<Longrightarrow> to_int8 n = n"
  unfolding to_int8_def by (rule signed_take_bit_int_eq_self) simp_all

lemma c_rem_small: "0 \<le> a \<Longrightarrow> a < b \<Longrightarrow> c_rem a b = a"
  by (cases "a = 0") (simp_all add: c_rem_def)

lemma reverse_loop_below_tail:
  assumes "int n < block_buffer_tail s" "block_buffer_tail s < BLOCK_BUFFER_SIZE s"
    and "BLOCK_BUFFER_SIZE s \<le> 128"
  shows "reverse_loop st (int n) block s = Some (Fault (Out_Of_Bounds (- 1)))"
  using assms
proof (induction n arbitrary: block s)
  case 0
  let ?s' = "planner_reverse_pass_kernel st (Some 0) (fst block) (fst (snd block)) s"
  from 0 have addr: "addr_of s 0 = Ok 0" by (simp add: addr_of_def)
  from 0 have "c_rem (0 - 1) (BLOCK_BUFFER_SIZE s) = - 1" by (simp add: c_rem_def)
  then have next_index: "to_int8 (c_rem (0 - 1) (BLOCK_BUFFER_SIZE s)) = - 1"
    by (simp add: to_int8_small)
  from 0 have "reverse_loop st (- 1) (Some 0, fst block, fst (snd block)) ?s' =
      Some (Fault (Out_Of_Bounds (- 1)))"
    by (intro reverse_loop_fault) (simp_all add: kernel_tail addr_of_def)
  with 0 addr next_index show ?case
    by (simp add: reverse_loop_step [where i = 0])
next
  case (Suc n)
  let ?s' = "planner_reverse_pass_kernel st (Some (Suc n)) (fst block) (fst (snd block)) s"
  from Suc.prems have addr: "addr_of s (int (Suc n)) = Ok (Suc n)"
    by (simp add: addr_of_def)
  from Suc.prems have "c_rem (int (Suc n) - 1) (BLOCK_BUFFER_SIZE s) = int n"
    by (simp add: c_rem_small)
  with Suc.prems have next_index:
    "to_int8 (c_rem (int (Suc n) - 1) (BLOCK_BUFFER_SIZE s)) = int n"
    by (simp add: to_int8_small)
  from Suc.prems have "reverse_loop st (int n) (Some (Suc n), fst block, fst (snd block)) ?s' =
      Some (Fault (Out_Of_Bounds (- 1)))"
    by (intro Suc.IH) (simp_all add: kernel_tail kernel_size)
  with Suc.prems addr next_index show ?case
    by (simp add: reverse_loop_step [where i = "Suc n"])
qed

lemma reverse_pass_wrapped:
  assumes "0 \<le> block_buffer_head s" "block_buffer_head s < block_buffer_tail s"
    and "block_buffer_tail s < BLOCK_BUFFER_SIZE s" "BLOCK_BUFFER_SIZE s \<le> 128"
  shows "planner_reverse_pass st s = Some (Fault (Out_Of_Bounds (- 1)))"
proof -
  from assms have "to_int8 (block_buffer_head s) = int (nat (block_buffer_head s))"
    by (simp add: to_int8_small)
  moreover from assms have
    "reverse_loop st (int (nat (block_buffer_head s))) (None, None, None) s =
       Some (Fault (Out_Of_Bounds (- 1)))"
    by (intro reverse_loop_below_tail) simp_all
  ultimately show ?thesis by (simp add: planner_reverse_pass_def)
qed

text \<open>
  Claim C2 says that \<^verbatim>\<open>planner_reverse_pass\<close> visits exactly the queued blocks and
  that every index it uses lies in \<open>[0, BLOCK_BUFFER_SIZE)\<close>. With a ring of four slots,
  the head at 1 and the tail at 2 (three queued blocks, in the slots 2, 3 and 0), the
  index goes from 1 to 0 and then to \<open>(0 - 1) % 4 = -1\<close>: the pass forms the address of
  \<open>block_buffer[-1]\<close>.
\<close>

theorem reverse_pass_wrapped_out_of_bounds:
  "planner_reverse_pass scenario_settings
     (ring [x_move_block, zero_block, x_move_block, x_move_block] 1 2 True) =
   Some (Fault (Out_Of_Bounds (- 1)))"
  by (simp add: pass_simps state_simps double_simps)

text \<open>
  Claim C10 says that the recalculation leaves the reserved slot at the head, and every
  other slot outside the queue, unmodified. With two queued blocks in the slots 0 and 1
  and the head at 2, the reverse pass starts at the head: its second iteration runs the
  kernel with \<open>current = &block_buffer[2]\<close> and stores an entry factor there
  (\<open>max_jerk / jerk = 5 / 600\<close>, where the slot held 0).
\<close>

theorem reverse_pass_writes_sentinel:
  "planner_reverse_pass scenario_settings
     (ring [x_move_block, x_move_block, zero_block] 2 0 True) =
   Some (Ok (ring [x_move_block, x_move_block, zero_block\<lparr>entry_factor := Fin (1/120)\<rparr>]
               2 0 True))"
  by (simp add: pass_simps state_simps double_simps)

section \<open>The forward pass and the recalculation\<close>

lemma forward_kernel_start: "planner_forward_pass_kernel st None None n s = Ok s"
  by (simp add: planner_forward_pass_kernel_def)

lemma forward_kernel_null:
  "planner_forward_pass_kernel st None (Some c) n s = Fault Null_Deref"
  by (simp add: planner_forward_pass_kernel_def)

lemma forward_loop_second:
  "forward_loop st block_index (None, None, Some i) s \<noteq> Some (Ok (block', s')) \<or>
   (block' = (None, None, Some i) \<and> s' = s)"
  by (subst forward_loop.simps) (simp add: forward_kernel_null split: result.splits)

text \<open>The forward pass completes on the empty queue only.\<close>

lemma forward_pass_completes:
  assumes "planner_forward_pass st s = Some (Ok s')"
  shows "to_int8 (block_buffer_tail s) = block_buffer_head s \<and> s' = s"
proof (cases "to_int8 (block_buffer_tail s) = block_buffer_head s")
  case True
  with assms show ?thesis
    by (simp add: planner_forward_pass_def forward_loop_exit forward_kernel_start)
next
  case False
  from assms obtain block s1 where
    loop: "forward_loop st (to_int8 (block_buffer_tail s)) (None, None, None) s =
             Some (Ok (block, s1))"
    and last: "planner_forward_pass_kernel st (fst (snd block)) (snd (snd block)) None s1 =
             Ok s'"
    by (auto simp: planner_forward_pass_def split: option.splits result.splits)
  from loop False obtain i where
    "forward_loop st
       (to_int8 (c_rem (to_int8 (block_buffer_tail s) + 1) (BLOCK_BUFFER_SIZE s)))
       (None, None, Some i) s = Some (Ok (block, s1))"
    by (subst (asm) forward_loop.simps) (auto simp: forward_kernel_start split: result.splits)
  with forward_loop_second have "block = (None, None, Some i)" by blast
  with last show ?thesis by (simp add: forward_kernel_null)
qed

lemma trapezoids_empty:
  "to_int8 (block_buffer_tail s) = block_buffer_head s \<Longrightarrow>
   planner_recalculate_trapezoids st s = Some (Fault Null_Deref)"
  by (simp add: planner_recalculate_trapezoids_def trapezoids_loop_exit)

text \<open>
  Claim C4 says that the forward pass applies its cap only to a block whose predecessor
  exists, and never reads through an absent \<open>previous\<close>. The kernel tests
  \<open>current\<close> only: with one queued block the call after the loop is
  \<^verbatim>\<open>planner_forward_pass_kernel(NULL, &block_buffer[0], NULL)\<close>, which reads
  \<^verbatim>\<open>previous->entry_factor\<close>.
\<close>

theorem forward_pass_null_deref:
  "planner_forward_pass scenario_settings (ring [x_move_block, zero_block, zero_block] 1 0 True) =
   Some (Fault Null_Deref)"
  by (simp add: pass_simps state_simps double_simps)

text \<open>
  In the strict reading, in which the read through the null \<open>previous\<close> is a fault,
  no call of \<^verbatim>\<open>planner_recalculate\<close> completes: on a queue that is not empty the
  forward pass reads through the null \<open>previous\<close>, and on the empty queue the last
  call of phase 3 reads \<^verbatim>\<open>next->entry_factor\<close> with \<open>next\<close> null.
\<close>

lemma planner_recalculate_never_completes:
  "planner_recalculate st s \<noteq> Some (Ok s')"
proof
  assume completes: "planner_recalculate st s = Some (Ok s')"
  then obtain s1 s2 where
    "planner_reverse_pass st s = Some (Ok s1)"
    and forward: "planner_forward_pass st s1 = Some (Ok s2)"
    and trapezoids: "planner_recalculate_trapezoids st s2 = Some (Ok s')"
    by (auto simp: planner_recalculate_def split: option.splits result.splits)
  from forward_pass_completes [OF forward]
  have "to_int8 (block_buffer_tail s2) = block_buffer_head s2" by simp
  from trapezoids_empty [OF this] trapezoids show False by simp
qed

section \<open>Admission\<close>

text \<open>
  Claim C3 says that with acceleration management off the admitted block ends with
  \<open>accelerate_until = decelerate_after = rate_delta = 0\<close> and that no undefined
  arithmetic is involved. The code sets the three fields to 0 and then, before it
  returns, calls \<^verbatim>\<open>calculate_trapezoid_for_block(block, 1.0, 1.0)\<close>; with
  \<open>rate_delta = 0\<close> the acceleration is 0, and \<open>accelerate_steps\<close> is the conversion of
  \<open>ceil(0/0)\<close>, a NaN, to \<^verbatim>\<open>int32_t\<close>.
\<close>

theorem constant_rate_admission_undefined:
  "plan_buffer_line scenario_settings 1000 0 0 1000000 (Fin 10)
     (ring [zero_block, zero_block, zero_block] 0 0 False) =
   Some (Fault (Not_Representable NaN))"
  by (simp add: admit_simps state_simps double_simps)

text \<open>
  In the strict reading the first admission into an empty queue,
  \<^verbatim>\<open>plan_buffer_line(1000, 0, 0, 1000000, 10.0)\<close>, with acceleration management on,
  ends in the null read of the forward pass, and so does the admission that creates the
  first junction, a move along Y behind a queued move along X.
\<close>

lemma admission_with_acceleration_faults:
  "plan_buffer_line scenario_settings 1000 0 0 1000000 (Fin 10)
     (ring [zero_block, zero_block, zero_block] 0 0 True) =
   Some (Fault Null_Deref)"
  by (simp add: admit_simps pass_simps state_simps double_simps)

lemma second_admission_faults:
  "plan_buffer_line scenario_settings 0 1000 0 1000000 (Fin 10)
     (ring [x_move_block, zero_block, zero_block] 1 0 True) = Some (Fault Null_Deref)"
  by (simp add: admit_simps pass_simps state_simps double_simps)

lemma queue_slots_not_head:
  assumes "0 \<le> block_buffer_head s" "block_buffer_head s < BLOCK_BUFFER_SIZE s"
    and "i \<in> set (queue_slots s)"
  shows "nat (block_buffer_head s) \<noteq> i"
proof
  assume eq: "nat (block_buffer_head s) = i"
  let ?c = "BLOCK_BUFFER_SIZE s" and ?h = "block_buffer_head s" and ?t = "block_buffer_tail s"
  from assms have c: "0 < ?c" by simp
  from assms(3) obtain k where k: "k < nat ((?h - ?t) mod ?c)"
    and i: "i = nat ((?t + int k) mod ?c)"
    by (auto simp: queue_slots_def)
  from c have "0 \<le> (?t + int k) mod ?c" by simp
  with eq i assms(1) have h: "?h = (?t + int k) mod ?c" by simp
  from c have "(?h - ?t) mod ?c < ?c" by simp
  with k have kc: "int k < ?c" by simp
  have "(?h - ?t) mod ?c = ((?t + int k) mod ?c - ?t) mod ?c" using h by simp
  also have "\<dots> = (?t + int k - ?t) mod ?c" by (rule mod_diff_left_eq)
  also have "\<dots> = int k" using kc by simp
  finally show False using k by simp
qed

text \<open>
  Claim C8: a call \<^verbatim>\<open>plan_buffer_line(0, 0, 0, duration_us, length_mm)\<close> admits no
  block. While the queue is full the call waits and has written nothing. Otherwise it
  returns without a fault, with the head, the tail and the mode unchanged; the only slot
  it has written is the reserved one at the head (its step counts and
  \<open>step_event_count\<close> are now 0), which is outside the queue, so the queued blocks,
  which are all the consumer reads, are the same as before.
\<close>

theorem zero_length_is_noop:
  assumes "0 \<le> block_buffer_head s" "block_buffer_head s < BLOCK_BUFFER_SIZE s"
  shows "case plan_buffer_line st 0 0 0 microseconds millimeters' s of
           None \<Rightarrow> block_buffer_tail s = c_rem (block_buffer_head s + 1) (BLOCK_BUFFER_SIZE s)
         | Some (Fault e) \<Rightarrow> False
         | Some (Ok s') \<Rightarrow>
             block_buffer_head s' = block_buffer_head s \<and>
             block_buffer_tail s' = block_buffer_tail s \<and>
             acceleration_management s' = acceleration_management s \<and>
             queued_blocks s' = queued_blocks s \<and>
             (\<forall>i. i \<noteq> nat (block_buffer_head s) \<longrightarrow>
                  block_buffer s' ! i = block_buffer s ! i)"
proof (cases "block_buffer_tail s = c_rem (block_buffer_head s + 1) (BLOCK_BUFFER_SIZE s)")
  case True
  then show ?thesis by (simp add: plan_buffer_line_def)
next
  case False
  let ?h = "nat (block_buffer_head s)"
  let ?b = "(block_buffer s ! ?h)\<lparr>steps_x := 0, steps_y := 0, steps_z := 0,
               step_event_count := 0\<rparr>"
  from assms have addr: "addr_of s (block_buffer_head s) = Ok ?h"
    by (simp add: addr_of_def)
  have steps: "block_steps 0 0 0 (block_buffer s ! ?h) = Ok ?b"
    by (simp add: block_steps_def labs_def int32_def in_int32_def bind_result_def)
  from False addr steps
  have run: "plan_buffer_line st 0 0 0 microseconds millimeters' s = Some (Ok (store ?h ?b s))"
    by (simp add: plan_buffer_line_def bind_result_def)
  have slots: "queue_slots (store ?h ?b s) = queue_slots s"
    by (simp add: queue_slots_def store_def BLOCK_BUFFER_SIZE_def)
  have "queued_blocks (store ?h ?b s) = queued_blocks s"
    unfolding queued_blocks_def slots
    using queue_slots_not_head [OF assms]
    by (auto simp: store_def)
  then show ?thesis
    by (simp add: run) (simp add: store_def)
qed

theorem zero_length_is_noop_witness:
  "0 \<le> block_buffer_head (ring [x_move_block, short_block, zero_block] 1 0 True) \<and>
   block_buffer_head (ring [x_move_block, short_block, zero_block] 1 0 True)
     < BLOCK_BUFFER_SIZE (ring [x_move_block, short_block, zero_block] 1 0 True) \<and>
   plan_buffer_line scenario_settings 0 0 0 1000000 (Fin 0)
     (ring [x_move_block, short_block, zero_block] 1 0 True) =
   Some (Ok (ring [x_move_block, short_block\<lparr>steps_x := 0, step_event_count := 0\<rparr>,
                   zero_block] 1 0 True)) \<and>
   queued_blocks (ring [x_move_block, short_block\<lparr>steps_x := 0, step_event_count := 0\<rparr>,
                   zero_block] 1 0 True) = [x_move_block]"
  using zero_length_is_noop [of "ring [x_move_block, short_block, zero_block] 1 0 True"
      scenario_settings 1000000 "Fin 0"]
  by (simp add: admit_simps state_simps double_simps queued_blocks_def queue_slots_def)

section \<open>The plan on a machine that reads through the null pointer\<close>

text \<open>
  The theorems of this section are about \<open>planner_recalculate_reading\<close> and
  \<open>plan_buffer_line_reading\<close>, in which the read through the null \<open>previous\<close>
  yields the block \<open>at_null\<close>. They hold for every \<open>at_null\<close>, and for every call
  that returns: a call on a wrapped queue ends in the fault of the reverse pass, and a
  call on a full queue waits. Arithmetic on the reals is exact.
\<close>

subsection \<open>Two runs of a loop in step\<close>

text \<open>If one iteration keeps a relation \<open>R\<close> between the states of two runs, then the
  second run returns when the first does, with the same pointers, and \<open>R\<close> holds of
  the final states.\<close>

lemma reverse_loop_simulation:
  assumes step: "\<And>i k w s t. R i w s t \<Longrightarrow> i \<noteq> block_buffer_tail s \<Longrightarrow> addr_of s i = Ok k \<Longrightarrow>
      R (to_int8 (c_rem (i - 1) (BLOCK_BUFFER_SIZE s))) (Some k, fst w, fst (snd w))
        (planner_reverse_pass_kernel st (Some k) (fst w) (fst (snd w)) s)
        (planner_reverse_pass_kernel st (Some k) (fst w) (fst (snd w)) t)"
    and shape: "\<And>i w s t. R i w s t \<Longrightarrow>
      block_buffer_tail t = block_buffer_tail s \<and> BLOCK_BUFFER_SIZE t = BLOCK_BUFFER_SIZE s"
    and run: "reverse_loop st i w s = Some (Ok (w', s'))"
    and start: "R i w s t"
  shows "\<exists>t'. reverse_loop st i w t = Some (Ok (w', t')) \<and> R (block_buffer_tail s') w' s' t'"
proof -
  have "reverse_loop st i w s = Some y \<Longrightarrow>
      st = st \<longrightarrow> (\<forall>t w' s'. R i w s t \<longrightarrow> y = Ok (w', s') \<longrightarrow>
        (\<exists>t'. reverse_loop st i w t = Some (Ok (w', t')) \<and> R (block_buffer_tail s') w' s' t'))" for y
  proof (rule reverse_loop.raw_induct
      [where P = "\<lambda>st' i w s y. st' = st \<longrightarrow> (\<forall>t w' s'. R i w s t \<longrightarrow> y = Ok (w', s') \<longrightarrow>
        (\<exists>t'. reverse_loop st i w t = Some (Ok (w', t')) \<and> R (block_buffer_tail s') w' s' t'))"
         and st = st])
    fix loop :: "settings_t \<Rightarrow> int \<Rightarrow> block_ptr \<times> block_ptr \<times> block_ptr \<Rightarrow> planner \<Rightarrow>
        ((block_ptr \<times> block_ptr \<times> block_ptr) \<times> planner) result option"
      and st' i w s y
    assume IH: "\<And>st' i w s y. loop st' i w s = Some y \<Longrightarrow>
        st' = st \<longrightarrow> (\<forall>t w' s'. R i w s t \<longrightarrow> y = Ok (w', s') \<longrightarrow>
        (\<exists>t'. reverse_loop st i w t = Some (Ok (w', t')) \<and> R (block_buffer_tail s') w' s' t'))"
    assume body: "(if i = block_buffer_tail s then Some (Ok (w, s))
      else case addr_of s i of
           Ok k \<Rightarrow>
             loop st' (to_int8 (c_rem (i - 1) (BLOCK_BUFFER_SIZE s)))
              (Some k, fst w, fst (snd w))
              (planner_reverse_pass_kernel st' (Some k) (fst w) (fst (snd w)) s)
           | Fault e \<Rightarrow> Some (Fault e)) = Some y"
    show "st' = st \<longrightarrow> (\<forall>t w' s'. R i w s t \<longrightarrow> y = Ok (w', s') \<longrightarrow>
        (\<exists>t'. reverse_loop st i w t = Some (Ok (w', t')) \<and> R (block_buffer_tail s') w' s' t'))"
    proof (intro impI allI)
      fix t w' s'
      assume st: "st' = st" and rel: "R i w s t" and y: "y = Ok (w', s')"
      from shape [OF rel] have same: "block_buffer_tail t = block_buffer_tail s"
        "addr_of t i = addr_of s i"
        by (simp_all add: addr_of_def)
      show "\<exists>t'. reverse_loop st i w t = Some (Ok (w', t')) \<and> R (block_buffer_tail s') w' s' t'"
      proof (cases "i = block_buffer_tail s")
        case True
        with body y have "w' = w" "s' = s" by simp_all
        moreover from True same have "reverse_loop st i w t = Some (Ok (w, t))"
          by (subst reverse_loop.simps) simp
        ultimately show ?thesis using rel True by auto
      next
        case False
        show ?thesis
        proof (cases "addr_of s i")
          case (Fault e)
          with False body y show ?thesis by simp
        next
          case (Ok k)
          let ?i = "to_int8 (c_rem (i - 1) (BLOCK_BUFFER_SIZE s))"
          let ?w = "(Some k, fst w, fst (snd w))"
          let ?s = "planner_reverse_pass_kernel st (Some k) (fst w) (fst (snd w)) s"
          let ?t = "planner_reverse_pass_kernel st (Some k) (fst w) (fst (snd w)) t"
          from Ok False body st have "loop st ?i ?w ?s = Some y" by simp
          from IH [OF this] step [OF rel False Ok] y obtain t' where
            t': "reverse_loop st ?i ?w ?t = Some (Ok (w', t'))" "R (block_buffer_tail s') w' s' t'"
            by blast
          from False Ok same shape [OF rel]
          have "reverse_loop st i w t = reverse_loop st ?i ?w ?t"
            by (subst reverse_loop.simps) simp
          with t' show ?thesis by auto
        qed
      qed
    qed
  qed
  with run start show ?thesis by blast
qed

lemma forward_loop_reading_simulation:
  assumes step: "\<And>i k w s t s1. R i w s t \<Longrightarrow> i \<noteq> block_buffer_head s \<Longrightarrow>
      addr_of s i = Ok k \<Longrightarrow>
      planner_forward_pass_kernel_reading g st (fst (snd w)) (snd (snd w)) (Some k) s = Ok s1 \<Longrightarrow>
      \<exists>t1. planner_forward_pass_kernel_reading g st (fst (snd w)) (snd (snd w)) (Some k) t = Ok t1 \<and>
        R (to_int8 (c_rem (i + 1) (BLOCK_BUFFER_SIZE s1))) (fst (snd w), snd (snd w), Some k) s1 t1"
    and shape: "\<And>i w s t. R i w s t \<Longrightarrow>
      block_buffer_head t = block_buffer_head s \<and> BLOCK_BUFFER_SIZE t = BLOCK_BUFFER_SIZE s"
    and run: "forward_loop_reading g st i w s = Some (Ok (w', s'))"
    and start: "R i w s t"
  shows "\<exists>t'. forward_loop_reading g st i w t = Some (Ok (w', t')) \<and>
           R (block_buffer_head s') w' s' t'"
proof -
  have "forward_loop_reading g st i w s = Some y \<Longrightarrow>
      g = g \<and> st = st \<longrightarrow> (\<forall>t w' s'. R i w s t \<longrightarrow> y = Ok (w', s') \<longrightarrow>
        (\<exists>t'. forward_loop_reading g st i w t = Some (Ok (w', t')) \<and>
              R (block_buffer_head s') w' s' t'))" for y
  proof (rule forward_loop_reading.raw_induct
      [where P = "\<lambda>g' st' i w s y. g' = g \<and> st' = st \<longrightarrow>
        (\<forall>t w' s'. R i w s t \<longrightarrow> y = Ok (w', s') \<longrightarrow>
        (\<exists>t'. forward_loop_reading g st i w t = Some (Ok (w', t')) \<and>
              R (block_buffer_head s') w' s' t'))"
         and st = st and at_null = g])
    fix loop :: "block_t \<Rightarrow> settings_t \<Rightarrow> int \<Rightarrow> block_ptr \<times> block_ptr \<times> block_ptr \<Rightarrow> planner \<Rightarrow>
        ((block_ptr \<times> block_ptr \<times> block_ptr) \<times> planner) result option"
      and g' st' i w s y
    assume IH: "\<And>g' st' i w s y. loop g' st' i w s = Some y \<Longrightarrow>
        g' = g \<and> st' = st \<longrightarrow> (\<forall>t w' s'. R i w s t \<longrightarrow> y = Ok (w', s') \<longrightarrow>
        (\<exists>t'. forward_loop_reading g st i w t = Some (Ok (w', t')) \<and>
              R (block_buffer_head s') w' s' t'))"
    assume body: "(if i = block_buffer_head s then Some (Ok (w, s))
      else case addr_of s i of
           Ok k \<Rightarrow>
             (case planner_forward_pass_kernel_reading g' st' (fst (snd w)) (snd (snd w))
                     (Some k) s of
                Ok s' \<Rightarrow>
                  loop g' st' (to_int8 (c_rem (i + 1) (BLOCK_BUFFER_SIZE s')))
                   (fst (snd w), snd (snd w), Some k) s'
              | Fault e \<Rightarrow> Some (Fault e))
           | Fault e \<Rightarrow> Some (Fault e)) = Some y"
    show "g' = g \<and> st' = st \<longrightarrow> (\<forall>t w' s'. R i w s t \<longrightarrow> y = Ok (w', s') \<longrightarrow>
        (\<exists>t'. forward_loop_reading g st i w t = Some (Ok (w', t')) \<and>
              R (block_buffer_head s') w' s' t'))"
    proof (intro impI allI)
      fix t w' s'
      assume eq: "g' = g \<and> st' = st" and rel: "R i w s t" and y: "y = Ok (w', s')"
      from shape [OF rel] have same: "block_buffer_head t = block_buffer_head s"
        "addr_of t i = addr_of s i"
        by (simp_all add: addr_of_def)
      show "\<exists>t'. forward_loop_reading g st i w t = Some (Ok (w', t')) \<and>
              R (block_buffer_head s') w' s' t'"
      proof (cases "i = block_buffer_head s")
        case True
        with body y have "w' = w" "s' = s" by simp_all
        moreover from True same have "forward_loop_reading g st i w t = Some (Ok (w, t))"
          by (subst forward_loop_reading.simps) simp
        ultimately show ?thesis using rel True by auto
      next
        case False
        show ?thesis
        proof (cases "addr_of s i")
          case (Fault e)
          with False body y show ?thesis by simp
        next
          case (Ok k)
          show ?thesis
          proof (cases "planner_forward_pass_kernel_reading g st (fst (snd w)) (snd (snd w))
                     (Some k) s")
            case (Fault e)
            with Ok False body y eq show ?thesis by simp
          next
            case kernel: (Ok s1)
            let ?w = "(fst (snd w), snd (snd w), Some k)"
            from step [OF rel False Ok kernel] obtain t1 where
              t1: "planner_forward_pass_kernel_reading g st (fst (snd w)) (snd (snd w))
                     (Some k) t = Ok t1"
              and rel1: "R (to_int8 (c_rem (i + 1) (BLOCK_BUFFER_SIZE s1))) ?w s1 t1"
              by blast
            from Ok False body eq kernel
            have "loop g st (to_int8 (c_rem (i + 1) (BLOCK_BUFFER_SIZE s1))) ?w s1 = Some y"
              by simp
            from IH [OF this] rel1 y obtain t' where
              t': "forward_loop_reading g st (to_int8 (c_rem (i + 1) (BLOCK_BUFFER_SIZE s1))) ?w t1
                     = Some (Ok (w', t'))" "R (block_buffer_head s') w' s' t'"
              by blast
            from False Ok same t1 shape [OF rel1]
            have "forward_loop_reading g st i w t =
                forward_loop_reading g st (to_int8 (c_rem (i + 1) (BLOCK_BUFFER_SIZE s1))) ?w t1"
              by (subst forward_loop_reading.simps) simp
            with t' show ?thesis by auto
          qed
        qed
      qed
    qed
  qed
  with run start show ?thesis by blast
qed

lemma trapezoids_loop_simulation:
  assumes step: "\<And>i k n s t s1. R i n s t \<Longrightarrow> i \<noteq> block_buffer_head s \<Longrightarrow>
      addr_of s i = Ok k \<Longrightarrow> trapezoid_step st n k s = Ok s1 \<Longrightarrow>
      \<exists>t1. trapezoid_step st n k t = Ok t1 \<and>
        R (to_int8 (c_rem (i + 1) (BLOCK_BUFFER_SIZE s1))) (Some k) s1 t1"
    and shape: "\<And>i n s t. R i n s t \<Longrightarrow>
      block_buffer_head t = block_buffer_head s \<and> BLOCK_BUFFER_SIZE t = BLOCK_BUFFER_SIZE s"
    and run: "trapezoids_loop st i n s = Some (Ok (n', s'))"
    and start: "R i n s t"
  shows "\<exists>t'. trapezoids_loop st i n t = Some (Ok (n', t')) \<and> R (block_buffer_head s') n' s' t'"
proof -
  have "trapezoids_loop st i n s = Some y \<Longrightarrow>
      st = st \<longrightarrow> (\<forall>t n' s'. R i n s t \<longrightarrow> y = Ok (n', s') \<longrightarrow>
        (\<exists>t'. trapezoids_loop st i n t = Some (Ok (n', t')) \<and>
              R (block_buffer_head s') n' s' t'))" for y
  proof (rule trapezoids_loop.raw_induct
      [where P = "\<lambda>st' i n s y. st' = st \<longrightarrow>
        (\<forall>t n' s'. R i n s t \<longrightarrow> y = Ok (n', s') \<longrightarrow>
        (\<exists>t'. trapezoids_loop st i n t = Some (Ok (n', t')) \<and>
              R (block_buffer_head s') n' s' t'))"
         and st = st])
    fix loop :: "settings_t \<Rightarrow> int \<Rightarrow> block_ptr \<Rightarrow> planner \<Rightarrow> (block_ptr \<times> planner) result option"
      and st' i n s y
    assume IH: "\<And>st' i n s y. loop st' i n s = Some y \<Longrightarrow>
        st' = st \<longrightarrow> (\<forall>t n' s'. R i n s t \<longrightarrow> y = Ok (n', s') \<longrightarrow>
        (\<exists>t'. trapezoids_loop st i n t = Some (Ok (n', t')) \<and>
              R (block_buffer_head s') n' s' t'))"
    assume body: "(if i = block_buffer_head s then Some (Ok (n, s))
      else case addr_of s i of
           Ok k \<Rightarrow>
             (case case n of
                   None \<Rightarrow> Ok s
                 | Some c \<Rightarrow>
                     calculate_trapezoid_for_block st' (Some c)
                      (entry_factor (block_buffer s ! c))
                      (entry_factor (block_buffer s ! k)) s of
                Ok s' \<Rightarrow>
                  loop st' (to_int8 (c_rem (i + 1) (BLOCK_BUFFER_SIZE s'))) (Some k) s'
              | Fault e \<Rightarrow> Some (Fault e))
           | Fault e \<Rightarrow> Some (Fault e)) = Some y"
    show "st' = st \<longrightarrow> (\<forall>t n' s'. R i n s t \<longrightarrow> y = Ok (n', s') \<longrightarrow>
        (\<exists>t'. trapezoids_loop st i n t = Some (Ok (n', t')) \<and>
              R (block_buffer_head s') n' s' t'))"
    proof (intro impI allI)
      fix t n' s'
      assume eq: "st' = st" and rel: "R i n s t" and y: "y = Ok (n', s')"
      from shape [OF rel] have same: "block_buffer_head t = block_buffer_head s"
        "addr_of t i = addr_of s i"
        by (simp_all add: addr_of_def)
      show "\<exists>t'. trapezoids_loop st i n t = Some (Ok (n', t')) \<and>
              R (block_buffer_head s') n' s' t'"
      proof (cases "i = block_buffer_head s")
        case True
        with body y have "n' = n" "s' = s" by simp_all
        moreover from True same have "trapezoids_loop st i n t = Some (Ok (n, t))"
          by (subst trapezoids_loop.simps) simp
        ultimately show ?thesis using rel True by auto
      next
        case False
        show ?thesis
        proof (cases "addr_of s i")
          case (Fault e)
          with False body y show ?thesis by simp
        next
          case (Ok k)
          show ?thesis
          proof (cases "trapezoid_step st n k s")
            case (Fault e)
            with Ok False body y eq show ?thesis by (auto simp: trapezoid_step_def)
          next
            case kernel: (Ok s1)
            from step [OF rel False Ok kernel] obtain t1 where
              t1: "trapezoid_step st n k t = Ok t1"
              and rel1: "R (to_int8 (c_rem (i + 1) (BLOCK_BUFFER_SIZE s1))) (Some k) s1 t1"
              by blast
            from Ok False body eq kernel
            have "loop st (to_int8 (c_rem (i + 1) (BLOCK_BUFFER_SIZE s1))) (Some k) s1 = Some y"
              by (auto simp: trapezoid_step_def)
            from IH [OF this] rel1 y obtain t' where
              t': "trapezoids_loop st (to_int8 (c_rem (i + 1) (BLOCK_BUFFER_SIZE s1))) (Some k) t1
                     = Some (Ok (n', t'))" "R (block_buffer_head s') n' s' t'"
              by blast
            from False Ok same t1 shape [OF rel1]
            have "trapezoids_loop st i n t =
                trapezoids_loop st (to_int8 (c_rem (i + 1) (BLOCK_BUFFER_SIZE s1))) (Some k) t1"
              by (subst trapezoids_loop.simps) (simp add: trapezoid_step_def)
            with t' show ?thesis by auto
          qed
        qed
      qed
    qed
  qed
  with run start show ?thesis by blast
qed

subsection \<open>Evaluation\<close>

lemma forward_loop_reading_exit:
  "block_index = block_buffer_head s \<Longrightarrow>
   forward_loop_reading g st block_index block s = Some (Ok (block, s))"
  by (subst forward_loop_reading.simps) simp

lemma forward_loop_reading_step:
  "block_index \<noteq> block_buffer_head s \<Longrightarrow> addr_of s block_index = Ok i \<Longrightarrow>
   planner_forward_pass_kernel_reading g st (fst (snd block)) (snd (snd block)) (Some i) s = Ok s' \<Longrightarrow>
   forward_loop_reading g st block_index block s =
     forward_loop_reading g st (to_int8 (c_rem (block_index + 1) (BLOCK_BUFFER_SIZE s')))
       (fst (snd block), snd (snd block), Some i) s'"
  by (subst forward_loop_reading.simps) simp

lemma trapezoids_loop_step:
  "block_index \<noteq> block_buffer_head s \<Longrightarrow> addr_of s block_index = Ok i \<Longrightarrow>
   trapezoid_step st next i s = Ok s' \<Longrightarrow>
   trapezoids_loop st block_index next s =
     trapezoids_loop st (to_int8 (c_rem (block_index + 1) (BLOCK_BUFFER_SIZE s'))) (Some i) s'"
  by (subst trapezoids_loop.simps) (simp add: trapezoid_step_def)

lemmas reading_simps = plan_buffer_line_reading_def planner_recalculate_reading_def
  planner_forward_pass_reading_def planner_forward_pass_kernel_reading_def
  forward_loop_reading_exit forward_loop_reading_step
  planner_recalculate_trapezoids_def trapezoids_loop_exit trapezoids_loop_step trapezoid_step_def

lemma first_admission_reading:
  "plan_buffer_line_reading zero_block scenario_settings 1000 0 0 1000000 (Fin 10)
     (ring [zero_block, zero_block, zero_block] 0 0 True) =
   Some (Ok (ring [x_move_block, zero_block\<lparr>entry_factor := Fin 0\<rparr>, zero_block] 1 0 True))"
  by (simp add: reading_simps admit_simps pass_simps state_simps double_simps)

lemma second_admission_reading:
  "plan_buffer_line_reading zero_block scenario_settings 0 1000 0 1000000 (Fin 10)
     (ring [x_move_block, zero_block, zero_block] 1 0 True) =
   Some (Ok (ring [x_move_block, y_move_block, zero_block\<lparr>entry_factor := Fin (1/120)\<rparr>] 2 0 True))"
  by (simp add: reading_simps admit_simps pass_simps state_simps double_simps y_move_block_def)

subsection \<open>The entry factors that the kernels store\<close>

lemma reverse_kernel_store:
  "planner_reverse_pass_kernel st previous (Some c) next s =
     store c ((slot s c)\<lparr>entry_factor :=
        reverse_entry_factor st (map_option (slot s) previous) (slot s c) (exit_at s next)\<rparr>) s"
  unfolding planner_reverse_pass_kernel_def reverse_entry_factor_def slot_def exit_at_def Let_def
  by (cases previous) simp_all

lemma reverse_kernel_none [simp]: "planner_reverse_pass_kernel st previous None next s = s"
  by (simp add: planner_reverse_pass_kernel_def)

lemma forward_kernel_reading_store:
  "planner_forward_pass_kernel_reading g st previous (Some c) next s =
     Ok (store c ((slot s c)\<lparr>entry_factor :=
        forward_entry_factor st (case previous of None \<Rightarrow> g | Some p \<Rightarrow> slot s p) (slot s c)\<rparr>) s)"
  unfolding planner_forward_pass_kernel_reading_def forward_entry_factor_def slot_def Let_def
  by (cases previous) (simp_all add: store_def)

lemma forward_kernel_reading_none [simp]:
  "planner_forward_pass_kernel_reading g st previous None next s = Ok s"
  by (simp add: planner_forward_pass_kernel_reading_def)

lemma reverse_entry_factor_range:
  assumes "max_jerk st = Fin j" "0 < j" "nominal_speed cur = Fin v" "0 \<le> v"
  shows "\<exists>e. reverse_entry_factor st previous cur exit_factor = Fin e \<and> 0 \<le> e \<and> e \<le> 1 \<and>
     (\<forall>prev x. previous = Some prev \<longrightarrow> junction_jerk prev cur = Fin x \<longrightarrow> x * e \<le> j)"
proof (cases previous)
  case None
  then show ?thesis by (simp add: reverse_entry_factor_def)
next
  case (Some prev)
  define J where "J = junction_jerk prev cur"
  define S where "S = max_allowable_speed (dneg (acceleration st))
      (dmul (nominal_speed cur) exit_factor) (millimeters cur)"
  define L where "L = (if dless (max_jerk st) J then ddiv (max_jerk st) J else Fin 1)"
  define M where "M = (if dless (ddiv S (nominal_speed cur)) L then ddiv S (nominal_speed cur) else L)"
  have val: "reverse_entry_factor st previous cur exit_factor = (if dless exit_factor L then M else L)"
    using Some by (simp add: reverse_entry_factor_def Let_def J_def S_def L_def M_def)
  from limited_range [OF assms(2), of J] obtain l where
    l: "L = Fin l" "0 \<le> l" "l \<le> 1"
    and jl: "\<And>x. J = Fin x \<Longrightarrow> 0 \<le> x \<Longrightarrow> x * l \<le> j"
    unfolding L_def assms(1) by blast
  have "(\<exists>m. S = Fin m \<and> 0 \<le> m) \<or> S = PInf \<or> S = NaN"
    unfolding S_def max_allowable_speed_def by (rule dsqrt_cases)
  from capped_range [OF l(2,3) assms(4) this] obtain e where
    e: "M = Fin e" "0 \<le> e" "e \<le> l"
    unfolding M_def l(1) assms(3) by blast
  obtain r where r: "(if dless exit_factor L then M else L) = Fin r" "0 \<le> r" "r \<le> l"
    using e l by (cases "dless exit_factor L") auto
  have "x * r \<le> j" if "J = Fin x" for x
  proof -
    from that have "0 \<le> x"
      unfolding J_def junction_jerk_def
      using dsqrt_cases [of "dadd (dadd (pow2 (dsub (speed_x prev) (speed_x cur)))
          (pow2 (dsub (speed_y prev) (speed_y cur))))
          (pow2 (dsub (speed_z prev) (speed_z cur)))"]
      by auto
    with r jl [OF that] show ?thesis
      using mult_left_mono [of r l x] by simp
  qed
  with val r l(3) Some show ?thesis
    by (auto simp: J_def)
qed

lemma forward_entry_factor_range:
  assumes "entry_factor cur = Fin e" "nominal_speed cur = Fin v" "0 \<le> v"
  shows "\<exists>m. forward_entry_factor st prev cur = Fin m \<and> (m = e \<or> (0 \<le> m \<and> m < e))"
proof -
  define S where "S = max_allowable_speed (dneg (acceleration st))
      (dmul (nominal_speed cur) (entry_factor prev)) (millimeters prev)"
  have S: "(\<exists>m. S = Fin m \<and> 0 \<le> m) \<or> S = PInf \<or> S = NaN"
    unfolding S_def max_allowable_speed_def by (rule dsqrt_cases)
  have val: "forward_entry_factor st prev cur =
      (if dless (entry_factor prev) (Fin e) \<and> dless (ddiv S (Fin v)) (Fin e)
       then ddiv S (Fin v) else Fin e)"
    using assms by (simp add: forward_entry_factor_def Let_def S_def)
  from S assms(3) show ?thesis
    unfolding val by (auto simp: signed_inf_def)
qed

subsection \<open>Properties of blocks that the passes keep\<close>

lemma list_all_update:
  "list_all P xs \<Longrightarrow> (c < length xs \<Longrightarrow> P x) \<Longrightarrow> list_all P (xs[c := x])"
  by (cases "c < length xs") (auto simp: list_all_length nth_list_update)

lemma factor_soundD:
  assumes "factor_sound b"
  obtains e v where "entry_factor b = Fin e" "0 \<le> e" "e \<le> 1" "nominal_speed b = Fin v" "0 \<le> v"
  using assms
  by (auto simp: factor_sound_def unit_range_def nonnegative_def split: double.splits)

lemma trapezoid_frame:
  assumes "trapezoid st b e x = Ok b'"
  shows "\<exists>ir au da. b' = b\<lparr>initial_rate := ir, accelerate_until := au, decelerate_after := da\<rparr>"
  using assms unfolding trapezoid_def bind_result_def
  by (auto split: result.splits if_splits prod.splits)

lemma kept_factor_sound: "kept factor_sound"
  by (simp add: kept_def factor_sound_def)

lemma kept_finite: "kept (\<lambda>b. factor_sound b \<and> speeds_finite b)"
  by (simp add: kept_def factor_sound_def speeds_finite_def)

lemma same_shape_refl [simp]: "same_shape s s"
  by (simp add: same_shape_def)

lemma same_shape_trans: "same_shape s t \<Longrightarrow> same_shape t u \<Longrightarrow> same_shape s u"
  by (simp add: same_shape_def)

lemma same_shape_store [simp]: "same_shape s (store c b s)"
  by (simp add: same_shape_def store_def)

lemma same_shape_size: "same_shape s s' \<Longrightarrow> BLOCK_BUFFER_SIZE s' = BLOCK_BUFFER_SIZE s"
  by (simp add: same_shape_def BLOCK_BUFFER_SIZE_def)

lemma kernel_shape [simp]:
  "same_shape s (planner_reverse_pass_kernel st previous current next s)"
  by (cases current) (simp_all add: reverse_kernel_store)

lemma forward_kernel_shape:
  "planner_forward_pass_kernel_reading g st previous current next s = Ok s' \<Longrightarrow> same_shape s s'"
  by (cases current) (auto simp: forward_kernel_reading_store)

lemma calculate_trapezoid_shape:
  "calculate_trapezoid_for_block st block e x s = Ok s' \<Longrightarrow> same_shape s s'"
  by (cases block)
    (auto simp: calculate_trapezoid_for_block_def bind_result_def split: result.splits)

lemma trapezoid_step_shape:
  "trapezoid_step st n k s = Ok s' \<Longrightarrow> same_shape s s'"
  by (cases n) (auto simp: trapezoid_step_def dest: calculate_trapezoid_shape)

lemma reverse_kernel_kept:
  assumes "kept P" "max_jerk st = Fin j" "0 < j" "list_all P (block_buffer s)"
  shows "list_all P (block_buffer (planner_reverse_pass_kernel st previous current next s))"
proof (cases current)
  case None
  with assms show ?thesis by simp
next
  case (Some c)
  have "P ((slot s c)\<lparr>entry_factor :=
        reverse_entry_factor st (map_option (slot s) previous) (slot s c) (exit_at s next)\<rparr>)"
    if "c < length (block_buffer s)"
  proof -
    from that assms(4) have P: "P (slot s c)" by (simp add: list_all_length slot_def)
    with assms(1) have "factor_sound (slot s c)" by (simp add: kept_def)
    then obtain v where "nominal_speed (slot s c) = Fin v" "0 \<le> v" by (rule factor_soundD)
    from reverse_entry_factor_range
      [OF assms(2,3) this, of "map_option (slot s) previous" "exit_at s next"]
    obtain e where "reverse_entry_factor st (map_option (slot s) previous) (slot s c)
        (exit_at s next) = Fin e" "0 \<le> e" "e \<le> 1"
      by blast
    then have "unit_range (reverse_entry_factor st (map_option (slot s) previous) (slot s c)
        (exit_at s next))"
      by (simp add: unit_range_def)
    with assms(1) P show ?thesis by (simp add: kept_def)
  qed
  with assms(4) Some show ?thesis
    by (simp add: reverse_kernel_store store_def list_all_update)
qed

lemma forward_kernel_kept:
  assumes "kept P" "list_all P (block_buffer s)"
    and "planner_forward_pass_kernel_reading g st previous current next s = Ok s'"
  shows "list_all P (block_buffer s')"
proof (cases current)
  case None
  with assms show ?thesis by simp
next
  case (Some c)
  let ?prev = "case previous of None \<Rightarrow> g | Some p \<Rightarrow> slot s p"
  have "P ((slot s c)\<lparr>entry_factor := forward_entry_factor st ?prev (slot s c)\<rparr>)"
    if "c < length (block_buffer s)"
  proof -
    from that assms(2) have P: "P (slot s c)" by (simp add: list_all_length slot_def)
    with assms(1) have "factor_sound (slot s c)" by (simp add: kept_def)
    then obtain e v where ev: "entry_factor (slot s c) = Fin e" "0 \<le> e" "e \<le> 1"
      "nominal_speed (slot s c) = Fin v" "0 \<le> v" by (rule factor_soundD)
    from forward_entry_factor_range [OF ev(1,4,5), of st ?prev]
    obtain m where "forward_entry_factor st ?prev (slot s c) = Fin m"
      "m = e \<or> (0 \<le> m \<and> m < e)"
      by blast
    with ev(2,3) have "unit_range (forward_entry_factor st ?prev (slot s c))"
      by (auto simp: unit_range_def)
    with assms(1) P show ?thesis by (simp add: kept_def)
  qed
  with assms(2,3) Some show ?thesis
    by (auto simp: forward_kernel_reading_store store_def list_all_update)
qed

lemma calculate_trapezoid_kept:
  assumes "kept P" "list_all P (block_buffer s)"
    and "calculate_trapezoid_for_block st block e x s = Ok s'"
  shows "list_all P (block_buffer s')"
proof (cases block)
  case None
  with assms show ?thesis by (simp add: calculate_trapezoid_for_block_def)
next
  case (Some c)
  with assms(3) obtain b' where b': "trapezoid st (block_buffer s ! c) e x = Ok b'"
    and s': "s' = store c b' s"
    by (auto simp: calculate_trapezoid_for_block_def bind_result_def split: result.splits)
  from trapezoid_frame [OF b'] obtain ir au da where
    "b' = (block_buffer s ! c)\<lparr>initial_rate := ir, accelerate_until := au, decelerate_after := da\<rparr>"
    by blast
  with assms(1,2) have "c < length (block_buffer s) \<Longrightarrow> P b'"
    by (simp add: kept_def list_all_length)
  with assms(2) s' show ?thesis by (simp add: store_def list_all_update)
qed

lemma trapezoid_step_kept:
  assumes "kept P" "list_all P (block_buffer s)" "trapezoid_step st n k s = Ok s'"
  shows "list_all P (block_buffer s')"
  using assms calculate_trapezoid_kept [OF assms(1,2)]
  by (cases n) (auto simp: trapezoid_step_def)

lemma reverse_pass_kept:
  assumes "kept P" "max_jerk st = Fin j" "0 < j" "list_all P (block_buffer s)"
    and run: "planner_reverse_pass st s = Some (Ok s')"
  shows "list_all P (block_buffer s') \<and> same_shape s s'"
proof -
  from run obtain w s1 where
    loop: "reverse_loop st (to_int8 (block_buffer_head s)) (None, None, None) s = Some (Ok (w, s1))"
    and s': "s' = planner_reverse_pass_kernel st None (fst w) (fst (snd w)) s1"
    by (auto simp: planner_reverse_pass_def split: option.splits result.splits)
  have "\<exists>t'. reverse_loop st (to_int8 (block_buffer_head s)) (None, None, None) s = Some (Ok (w, t'))
      \<and> (t' = s1 \<and> list_all P (block_buffer s1) \<and> same_shape s s1)"
  proof (rule reverse_loop_simulation
        [where R = "\<lambda>i w u t. t = u \<and> list_all P (block_buffer u) \<and> same_shape s u",
          OF _ _ loop])
    fix i k w u t
    assume "t = u \<and> list_all P (block_buffer u) \<and> same_shape s u"
    then show "planner_reverse_pass_kernel st (Some k) (fst w) (fst (snd w)) t =
        planner_reverse_pass_kernel st (Some k) (fst w) (fst (snd w)) u \<and>
        list_all P (block_buffer (planner_reverse_pass_kernel st (Some k) (fst w) (fst (snd w)) u)) \<and>
        same_shape s (planner_reverse_pass_kernel st (Some k) (fst w) (fst (snd w)) u)"
      using reverse_kernel_kept [OF assms(1-3)] same_shape_trans [OF _ kernel_shape] by auto
  qed (simp_all add: assms(4))
  with s' show ?thesis
    using reverse_kernel_kept [OF assms(1-3)] same_shape_trans [OF _ kernel_shape] by auto
qed

lemma forward_pass_kept:
  assumes "kept P" "list_all P (block_buffer s)"
    and run: "planner_forward_pass_reading g st s = Some (Ok s')"
  shows "list_all P (block_buffer s') \<and> same_shape s s'"
proof -
  from run obtain w s1 where
    loop: "forward_loop_reading g st (to_int8 (block_buffer_tail s)) (None, None, None) s =
             Some (Ok (w, s1))"
    and s': "planner_forward_pass_kernel_reading g st (fst (snd w)) (snd (snd w)) None s1 = Ok s'"
    by (auto simp: planner_forward_pass_reading_def split: option.splits result.splits)
  have "\<exists>t'. forward_loop_reading g st (to_int8 (block_buffer_tail s)) (None, None, None) s =
        Some (Ok (w, t')) \<and> (t' = s1 \<and> list_all P (block_buffer s1) \<and> same_shape s s1)"
  proof (rule forward_loop_reading_simulation
        [where R = "\<lambda>i w u t. t = u \<and> list_all P (block_buffer u) \<and> same_shape s u",
          OF _ _ loop])
    fix i k w u t u1
    assume "t = u \<and> list_all P (block_buffer u) \<and> same_shape s u"
      and "planner_forward_pass_kernel_reading g st (fst (snd w)) (snd (snd w)) (Some k) u = Ok u1"
    then show "\<exists>t1. planner_forward_pass_kernel_reading g st (fst (snd w)) (snd (snd w)) (Some k) t
          = Ok t1 \<and> t1 = u1 \<and> list_all P (block_buffer u1) \<and> same_shape s u1"
      using forward_kernel_kept [OF assms(1)] same_shape_trans [OF _ forward_kernel_shape]
      by auto
  qed (simp_all add: assms(2))
  with s' forward_kernel_kept [OF assms(1)] forward_kernel_shape [OF s'] show ?thesis
    by (auto intro: same_shape_trans)
qed

lemma trapezoids_pass_kept:
  assumes "kept P" "list_all P (block_buffer s)"
    and run: "planner_recalculate_trapezoids st s = Some (Ok s')"
  shows "list_all P (block_buffer s') \<and> same_shape s s'"
proof -
  from run obtain n s1 where
    loop: "trapezoids_loop st (to_int8 (block_buffer_tail s)) None s = Some (Ok (Some n, s1))"
    and s': "calculate_trapezoid_for_block st (Some n) (entry_factor (block_buffer s1 ! n))
               (Fin 0) s1 = Ok s'"
    by (auto simp: planner_recalculate_trapezoids_def split: option.splits result.splits)
  have "\<exists>t'. trapezoids_loop st (to_int8 (block_buffer_tail s)) None s = Some (Ok (Some n, t'))
      \<and> (t' = s1 \<and> list_all P (block_buffer s1) \<and> same_shape s s1)"
  proof (rule trapezoids_loop_simulation
        [where R = "\<lambda>i n u t. t = u \<and> list_all P (block_buffer u) \<and> same_shape s u",
          OF _ _ loop])
    fix i k n u t u1
    assume "t = u \<and> list_all P (block_buffer u) \<and> same_shape s u"
      and "trapezoid_step st n k u = Ok u1"
    then show "\<exists>t1. trapezoid_step st n k t = Ok t1 \<and> t1 = u1 \<and>
        list_all P (block_buffer u1) \<and> same_shape s u1"
      using trapezoid_step_kept [OF assms(1)] same_shape_trans [OF _ trapezoid_step_shape]
      by auto
  qed (simp_all add: assms(2))
  with s' calculate_trapezoid_kept [OF assms(1)] calculate_trapezoid_shape [OF s'] show ?thesis
    by (auto intro: same_shape_trans)
qed

lemma recalculate_kept:
  assumes "kept P" "max_jerk st = Fin j" "0 < j" "list_all P (block_buffer s)"
    and run: "planner_recalculate_reading g st s = Some (Ok s')"
  shows "list_all P (block_buffer s') \<and> same_shape s s'"
proof -
  from run obtain s1 s2 where
    r: "planner_reverse_pass st s = Some (Ok s1)"
    and f: "planner_forward_pass_reading g st s1 = Some (Ok s2)"
    and t: "planner_recalculate_trapezoids st s2 = Some (Ok s')"
    by (auto simp: planner_recalculate_reading_def split: option.splits result.splits)
  from reverse_pass_kept [OF assms(1-4) r]
  have 1: "list_all P (block_buffer s1)" "same_shape s s1"
    by simp_all
  from forward_pass_kept [OF assms(1) 1(1) f]
  have 2: "list_all P (block_buffer s2)" "same_shape s1 s2"
    by simp_all
  from trapezoids_pass_kept [OF assms(1) 2(1) t] 1(2) 2(2) show ?thesis
    by (auto intro: same_shape_trans)
qed

lemma block_steps_frame:
  assumes "block_steps x y z b = Ok b'"
  shows "\<exists>sx sy sz. b' = b\<lparr>steps_x := sx, steps_y := sy, steps_z := sz,
           step_event_count := max sx (max sy sz)\<rparr>"
  using assms unfolding block_steps_def bind_result_def
  by (auto split: result.splits)

lemma block_profile_frame:
  assumes "block_profile st management x y z microseconds (Fin mm) b = Ok b'"
    and "0 \<le> microseconds"
  shows "\<exists>m. 0 < m \<and> entry_factor b' = entry_factor b \<and> millimeters b' = millimeters b \<and>
     nominal_speed b' = Fin (mm * m) \<and>
     speed_x b' = ddiv (Fin (of_int (steps_x b) * m)) (fst (steps_per_mm st)) \<and>
     speed_y b' = ddiv (Fin (of_int (steps_y b) * m)) (fst (snd (steps_per_mm st))) \<and>
     speed_z b' = ddiv (Fin (of_int (steps_z b) * m)) (snd (snd (steps_per_mm st)))"
proof (cases "microseconds = 0")
  case True
  have "to_int32 (dceil (dmul (of_long (step_event_count b)) PInf)) =
      Fault (Not_Representable (signed_inf (of_int (step_event_count b))))"
    by (simp add: of_long_def signed_inf_def)
  with True have "\<exists>e. block_profile st management x y z microseconds (Fin mm) b = Fault e"
    by (simp add: block_profile_def Let_def bind_result_def of_long_def signed_inf_def)
  with assms show ?thesis by auto
next
  case False
  with assms(2) have pos: "0 < (60 * 1000000 / of_int microseconds :: real)" by simp
  define m :: real where "m = 60 * 1000000 / of_int microseconds"
  have mult: "ddiv (dmul (Fin 60) (Fin 1000000)) (of_long microseconds) = Fin m"
    using False by (simp add: of_long_def m_def)
  from assms(1) obtain block2 where
    "b' = block2\<lparr>direction_bits :=
              (if x < 0 then push_bit (X_DIRECTION_BIT st) 1 else 0) OR
              (if y < 0 then push_bit (Y_DIRECTION_BIT st) 1 else 0) OR
              (if z < 0 then push_bit (Z_DIRECTION_BIT st) 1 else 0)\<rparr>"
    and "\<exists>nr rd. (management \<and> trapezoid st
        (b\<lparr>speed_x := ddiv (dmul (of_long (steps_x b)) (Fin m)) (fst (steps_per_mm st)),
           speed_y := ddiv (dmul (of_long (steps_y b)) (Fin m)) (fst (snd (steps_per_mm st))),
           speed_z := ddiv (dmul (of_long (steps_z b)) (Fin m)) (snd (snd (steps_per_mm st))),
           nominal_speed := dmul (Fin mm) (Fin m), nominal_rate := nr, rate_delta := rd\<rparr>)
        (Fin 0) (Fin 0) = Ok block2) \<or>
       block2 = b\<lparr>speed_x := ddiv (dmul (of_long (steps_x b)) (Fin m)) (fst (steps_per_mm st)),
           speed_y := ddiv (dmul (of_long (steps_y b)) (Fin m)) (fst (snd (steps_per_mm st))),
           speed_z := ddiv (dmul (of_long (steps_z b)) (Fin m)) (snd (snd (steps_per_mm st))),
           nominal_speed := dmul (Fin mm) (Fin m), nominal_rate := nr, rate_delta := 0,
           accelerate_until := 0, decelerate_after := 0\<rparr>"
    unfolding block_profile_def Let_def mult bind_result_def
    by (auto split: result.splits if_splits)
  then have "entry_factor b' = entry_factor b \<and> millimeters b' = millimeters b \<and>
     nominal_speed b' = Fin (mm * m) \<and>
     speed_x b' = ddiv (Fin (of_int (steps_x b) * m)) (fst (steps_per_mm st)) \<and>
     speed_y b' = ddiv (Fin (of_int (steps_y b) * m)) (fst (snd (steps_per_mm st))) \<and>
     speed_z b' = ddiv (Fin (of_int (steps_z b) * m)) (snd (snd (steps_per_mm st)))"
    by (auto simp: of_long_def dest!: trapezoid_frame)
  with pos show ?thesis unfolding m_def by blast
qed

subsection \<open>Admission\<close>

lemma admission_cases:
  assumes run: "plan_buffer_line_reading g st x y z microseconds millimeters' s = Some (Ok s')"
  obtains
    (zero) block where
      "0 \<le> block_buffer_head s" "block_buffer_head s < BLOCK_BUFFER_SIZE s"
      "block_steps x y z (block_buffer s ! nat (block_buffer_head s)) = Ok block"
      "step_event_count block = 0" "s' = store (nat (block_buffer_head s)) block s"
  | (managed) block block' where
      "0 \<le> block_buffer_head s" "block_buffer_head s < BLOCK_BUFFER_SIZE s"
      "block_steps x y z (block_buffer s ! nat (block_buffer_head s)) = Ok block"
      "step_event_count block \<noteq> 0"
      "block_profile st True x y z microseconds millimeters' block = Ok block'"
      "acceleration_management s"
      "planner_recalculate_reading g st
         ((store (nat (block_buffer_head s)) block' s)
            \<lparr>block_buffer_head := c_rem (block_buffer_head s + 1) (BLOCK_BUFFER_SIZE s)\<rparr>) =
       Some (Ok s')"
  | (unmanaged) block block' where
      "0 \<le> block_buffer_head s" "block_buffer_head s < BLOCK_BUFFER_SIZE s"
      "block_steps x y z (block_buffer s ! nat (block_buffer_head s)) = Ok block"
      "step_event_count block \<noteq> 0"
      "block_profile st False x y z microseconds millimeters' block = Ok block'"
      "\<not> acceleration_management s"
      "calculate_trapezoid_for_block st (Some (nat (block_buffer_head s))) (Fin 1) (Fin 1)
         ((store (nat (block_buffer_head s)) block' s)
            \<lparr>block_buffer_head := c_rem (block_buffer_head s + 1) (BLOCK_BUFFER_SIZE s)\<rparr>) =
       Ok s'"
proof -
  from run have full: "block_buffer_tail s \<noteq> c_rem (block_buffer_head s + 1) (BLOCK_BUFFER_SIZE s)"
    by (auto simp: plan_buffer_line_reading_def Let_def split: if_splits)
  from run full obtain h block where
    h: "addr_of s (block_buffer_head s) = Ok h"
    and block: "block_steps x y z (block_buffer s ! h) = Ok block"
    by (auto simp: plan_buffer_line_reading_def Let_def bind_result_def
        split: if_splits result.splits)
  from h have head: "0 \<le> block_buffer_head s" "block_buffer_head s < BLOCK_BUFFER_SIZE s"
    "h = nat (block_buffer_head s)"
    by (auto simp: addr_of_def split: if_splits)
  show thesis
  proof (cases "step_event_count block = 0")
    case True
    with run full h block have "s' = store h block s"
      by (simp add: plan_buffer_line_reading_def Let_def bind_result_def)
    with head block True show thesis by (auto intro: zero)
  next
    case False
    with run full h block obtain block' where
      profile: "block_profile st (acceleration_management s) x y z microseconds millimeters' block
         = Ok block'"
      by (auto simp: plan_buffer_line_reading_def Let_def bind_result_def split: result.splits)
    show thesis
    proof (cases "acceleration_management s")
      case True
      with run full h block False profile head show thesis
        by (intro managed [of block block'])
          (simp_all add: plan_buffer_line_reading_def Let_def bind_result_def)
    next
      case no: False
      with run full h block False profile head show thesis
        by (intro unmanaged [of block block'])
          (simp_all add: plan_buffer_line_reading_def Let_def bind_result_def)
    qed
  qed
qed

lemma admission_kept:
  assumes kept: "kept P" and jerk: "max_jerk st = Fin j" "0 < j"
    and inv: "list_all P (block_buffer s)"
    and steps: "\<And>b sx sy sz. P b \<Longrightarrow>
        P (b\<lparr>steps_x := sx, steps_y := sy, steps_z := sz, step_event_count := max sx (max sy sz)\<rparr>)"
    and profile: "\<And>b b' management. P b \<Longrightarrow>
        block_profile st management x y z microseconds millimeters' b = Ok b' \<Longrightarrow> P b'"
    and run: "plan_buffer_line_reading g st x y z microseconds millimeters' s = Some (Ok s')"
  shows "list_all P (block_buffer s') \<and> length (block_buffer s') = length (block_buffer s)"
  using run
proof (cases rule: admission_cases)
  case (zero block)
  from zero(1,2) inv have "P (block_buffer s ! nat (block_buffer_head s))"
    by (simp add: list_all_length BLOCK_BUFFER_SIZE_def)
  with block_steps_frame [OF zero(3)] steps have "P block" by auto
  with inv zero(5) show ?thesis by (simp add: store_def list_all_update)
next
  case (managed block block')
  let ?s = "(store (nat (block_buffer_head s)) block' s)
            \<lparr>block_buffer_head := c_rem (block_buffer_head s + 1) (BLOCK_BUFFER_SIZE s)\<rparr>"
  from managed(1,2) inv have "P (block_buffer s ! nat (block_buffer_head s))"
    by (simp add: list_all_length BLOCK_BUFFER_SIZE_def)
  with block_steps_frame [OF managed(3)] steps have "P block" by auto
  from profile [OF this managed(5)] inv have "list_all P (block_buffer ?s)"
    by (simp add: store_def list_all_update)
  from recalculate_kept [OF kept jerk this managed(7)] show ?thesis
    by (simp add: store_def same_shape_def)
next
  case (unmanaged block block')
  let ?s = "(store (nat (block_buffer_head s)) block' s)
            \<lparr>block_buffer_head := c_rem (block_buffer_head s + 1) (BLOCK_BUFFER_SIZE s)\<rparr>"
  from unmanaged(1,2) inv have "P (block_buffer s ! nat (block_buffer_head s))"
    by (simp add: list_all_length BLOCK_BUFFER_SIZE_def)
  with block_steps_frame [OF unmanaged(3)] steps have "P block" by auto
  from profile [OF this unmanaged(5)] inv have "list_all P (block_buffer ?s)"
    by (simp add: store_def list_all_update)
  from calculate_trapezoid_kept [OF kept this unmanaged(7)]
    calculate_trapezoid_shape [OF unmanaged(7)]
  show ?thesis by (simp add: store_def same_shape_def)
qed

lemma queue_slots_valid:
  assumes "block_buffer s \<noteq> []" "i \<in> set (queue_slots s)"
  shows "i < length (block_buffer s)"
proof -
  from assms(1) have "0 < BLOCK_BUFFER_SIZE s" by (simp add: BLOCK_BUFFER_SIZE_def)
  then have "nat ((block_buffer_tail s + int k) mod BLOCK_BUFFER_SIZE s) < length (block_buffer s)"
    for k
    using pos_mod_bound [of "BLOCK_BUFFER_SIZE s" "block_buffer_tail s + int k"]
      pos_mod_sign [of "BLOCK_BUFFER_SIZE s" "block_buffer_tail s + int k"]
    by (simp add: BLOCK_BUFFER_SIZE_def nat_less_iff)
  with assms(2) show ?thesis by (auto simp: queue_slots_def)
qed

lemma queued_blocks_all:
  assumes "block_buffer s \<noteq> []" "list_all P (block_buffer s)"
  shows "list_all P (queued_blocks s)"
  using assms queue_slots_valid [OF assms(1)]
  by (auto simp: queued_blocks_def list_all_iff)

lemma factor_sound_profile:
  assumes "factor_sound b" "0 \<le> microseconds" "0 \<le> mm"
    and "block_profile st management x y z microseconds (Fin mm) b = Ok b'"
  shows "factor_sound b'"
proof -
  from block_profile_frame [OF assms(4,2)] obtain m where
    "0 < m" "entry_factor b' = entry_factor b" "nominal_speed b' = Fin (mm * m)"
    by blast
  with assms(1,3) show ?thesis
    by (simp add: factor_sound_def nonnegative_def)
qed

text \<open>
  Claim C6: after \<^verbatim>\<open>planner_recalculate\<close> or \<^verbatim>\<open>plan_buffer_line\<close> returns, the entry
  factor of every queued block is a number in \<open>[0, 1]\<close>, given \<open>max_jerk > 0\<close> (the
  acceleration may be any number). Admission does not write \<open>entry_factor\<close>, and the
  reverse pass does not write the one of the tail block, so what a queued block holds
  may be what its slot held before; the theorem is therefore an invariant of the whole
  buffer: if every slot holds an entry factor in \<open>[0, 1]\<close> and a nominal speed that is
  not negative, as the zero-initialised buffer does, then so does every slot after the
  call, and the queued blocks among them. The duration and the length of the move are
  not negative.
\<close>

theorem entry_factor_in_unit_range:
  assumes "max_jerk st = Fin j" "0 < j"
    and "block_buffer s \<noteq> []" "list_all factor_sound (block_buffer s)"
    and "0 \<le> microseconds" "0 \<le> mm"
    and "planner_recalculate_reading at_null st s = Some (Ok s') \<or>
         plan_buffer_line_reading at_null st x y z microseconds (Fin mm) s = Some (Ok s')"
  shows "list_all factor_sound (block_buffer s') \<and>
         list_all (\<lambda>b. unit_range (entry_factor b)) (queued_blocks s')"
proof -
  have "list_all factor_sound (block_buffer s') \<and>
      length (block_buffer s') = length (block_buffer s)"
    using assms(7)
  proof
    assume "planner_recalculate_reading at_null st s = Some (Ok s')"
    from recalculate_kept [OF kept_factor_sound assms(1,2,4) this] show ?thesis
      by (simp add: same_shape_def)
  next
    assume run: "plan_buffer_line_reading at_null st x y z microseconds (Fin mm) s = Some (Ok s')"
    show ?thesis
    proof (rule admission_kept [OF kept_factor_sound assms(1,2,4) _ _ run])
      fix b sx sy sz
      assume "factor_sound b"
      then show "factor_sound (b\<lparr>steps_x := sx, steps_y := sy, steps_z := sz,
          step_event_count := max sx (max sy sz)\<rparr>)"
        by (simp add: factor_sound_def)
    next
      fix b b' management
      assume b: "factor_sound b" "block_profile st management x y z microseconds (Fin mm) b = Ok b'"
      show "factor_sound b'"
        by (rule factor_sound_profile [OF b(1) assms(5,6) b(2)])
    qed
  qed
  then have *: "list_all factor_sound (block_buffer s')" "block_buffer s' \<noteq> []"
    using assms(3) by auto
  from queued_blocks_all [OF *(2,1)] * show ?thesis
    by (auto simp: list_all_iff factor_sound_def)
qed

theorem entry_factor_in_unit_range_witness:
  "list_all factor_sound [x_move_block, zero_block, zero_block] \<and>
   list_all (\<lambda>b. unit_range (entry_factor b))
     (queued_blocks (ring [x_move_block, zero_block, zero_block] 1 0 True))"
proof -
  let ?s = "ring [zero_block, zero_block, zero_block] 0 0 True"
  have "max_jerk scenario_settings = Fin 5" "(0 :: real) < 5"
    by (simp_all add: scenario_settings_def)
  moreover have "block_buffer ?s \<noteq> []" "list_all factor_sound (block_buffer ?s)"
    by (simp_all add: ring_def zero_block_def factor_sound_def unit_range_def nonnegative_def)
  moreover have "(0 :: int) \<le> 1000000" "(0 :: real) \<le> 10"
    by simp_all
  moreover have "planner_recalculate_reading zero_block scenario_settings ?s =
        Some (Ok (ring [x_move_block, zero_block, zero_block] 1 0 True)) \<or>
      plan_buffer_line_reading zero_block scenario_settings 1000 0 0 1000000 (Fin 10) ?s =
        Some (Ok (ring [x_move_block, zero_block, zero_block] 1 0 True))"
    using first_admission_reading by (simp add: zero_block_def)
  ultimately show ?thesis
    using entry_factor_in_unit_range
      [of scenario_settings 5 ?s 1000000 10 zero_block
        "ring [x_move_block, zero_block, zero_block] 1 0 True" 1000 0 0]
    by (simp add: ring_def)
qed

subsection \<open>The junction jerk\<close>

lemma slot_store:
  "slot (store c b s) k = (if k = c \<and> c < length (block_buffer s) then b else slot s k)"
  by (cases "c < length (block_buffer s)") (auto simp: slot_def store_def list_update_beyond)

lemma speeds_finiteD:
  assumes "speeds_finite b"
  obtains x y z where "speed_x b = Fin x" "speed_y b = Fin y" "speed_z b = Fin z"
  using assms by (auto simp: speeds_finite_def is_number_def split: double.splits)

lemma junction_jerk_finite:
  assumes "speeds_finite a" "speeds_finite b"
  shows "\<exists>x. junction_jerk a b = Fin x \<and> 0 \<le> x"
proof -
  from assms(1) obtain x y z where a: "speed_x a = Fin x" "speed_y a = Fin y" "speed_z a = Fin z"
    by (rule speeds_finiteD)
  from assms(2) obtain x' y' z' where
    b: "speed_x b = Fin x'" "speed_y b = Fin y'" "speed_z b = Fin z'"
    by (rule speeds_finiteD)
  have "0 \<le> (x - x') * (x - x') + (y - y') * (y - y') + (z - z') * (z - z')"
    by (intro add_nonneg_nonneg) simp_all
  then show ?thesis
    by (simp add: junction_jerk_def pow2_def dsub_def a b not_less)
qed

lemma junction_jerk_nonneg: "junction_jerk a b = Fin x \<Longrightarrow> 0 \<le> x"
  unfolding junction_jerk_def
  using dsqrt_cases [of "dadd (dadd (pow2 (dsub (speed_x a) (speed_x b)))
          (pow2 (dsub (speed_y a) (speed_y b)))) (pow2 (dsub (speed_z a) (speed_z b)))"]
  by auto

lemma jerk_within_left [simp]:
  "jerk_within st (a\<lparr>entry_factor := r\<rparr>) b = jerk_within st a b"
  "jerk_within st (a\<lparr>initial_rate := ir, accelerate_until := au, decelerate_after := da\<rparr>) b =
     jerk_within st a b"
  by (simp_all add: jerk_within_def junction_jerk_def)

lemma jerk_within_right [simp]:
  "jerk_within st a (b\<lparr>initial_rate := ir, accelerate_until := au, decelerate_after := da\<rparr>) =
     jerk_within st a b"
  by (simp add: jerk_within_def junction_jerk_def)

lemma junction_jerk_right [simp]:
  "junction_jerk a (b\<lparr>entry_factor := r\<rparr>) = junction_jerk a b"
  by (simp add: junction_jerk_def)

lemma jerk_within_lower:
  assumes "jerk_within st a b" "entry_factor b = Fin e" "m \<le> e"
  shows "jerk_within st a (b\<lparr>entry_factor := Fin m\<rparr>)"
proof -
  from assms(1,2) obtain x j where
    x: "junction_jerk a b = Fin x" "max_jerk st = Fin j" "x * e \<le> j"
    by (auto simp: jerk_within_def split: double.splits)
  from junction_jerk_nonneg [OF x(1)] assms(3) have "x * m \<le> x * e"
    by (rule mult_left_mono [rotated])
  with x show ?thesis by (simp add: jerk_within_def)
qed

lemma jerk_within_new:
  assumes "junction_jerk a b = Fin x" "max_jerk st = Fin j" "x * e \<le> j"
  shows "jerk_within st a (b\<lparr>entry_factor := Fin e\<rparr>)"
  using assms by (simp add: jerk_within_def)

lemma pair_lowered:
  assumes "jerk_within st (slot s a) (slot s b)"
    and "entry_factor (slot s c) = Fin e" "m \<le> e"
  shows "jerk_within st (slot (store c ((slot s c)\<lparr>entry_factor := Fin m\<rparr>) s) a)
           (slot (store c ((slot s c)\<lparr>entry_factor := Fin m\<rparr>) s) b)"
  using assms jerk_within_lower [OF assms(1), of e m]
  by (auto simp: slot_store)

lemma pair_other:
  assumes "jerk_within st (slot s a) (slot s b)" "b \<noteq> c"
  shows "jerk_within st (slot (store c ((slot s c)\<lparr>entry_factor := r\<rparr>) s) a)
           (slot (store c ((slot s c)\<lparr>entry_factor := r\<rparr>) s) b)"
  using assms by (auto simp: slot_store)

lemma pair_profile:
  assumes "jerk_within st (slot s a) (slot s b)"
  shows "jerk_within st
     (slot (store c ((slot s c)\<lparr>initial_rate := ir, accelerate_until := au,
                        decelerate_after := da\<rparr>) s) a)
     (slot (store c ((slot s c)\<lparr>initial_rate := ir, accelerate_until := au,
                        decelerate_after := da\<rparr>) s) b)"
  using assms by (auto simp: slot_store)

lemma forward_kernel_pairs:
  assumes "kept P" "list_all P (block_buffer s)" "pairs_within st s lo hi"
    and "planner_forward_pass_kernel_reading g st previous current next s = Ok s'"
  shows "pairs_within st s' lo hi"
proof (cases current)
  case None
  with assms show ?thesis by simp
next
  case (Some c)
  let ?prev = "case previous of None \<Rightarrow> g | Some p \<Rightarrow> slot s p"
  from Some assms(4) have s': "s' = store c ((slot s c)\<lparr>entry_factor :=
      forward_entry_factor st ?prev (slot s c)\<rparr>) s"
    by (simp add: forward_kernel_reading_store)
  show ?thesis
  proof (cases "c < length (block_buffer s)")
    case False
    then have "s' = s" unfolding s' by (simp add: store_def list_update_beyond)
    with assms(3) show ?thesis by simp
  next
    case True
    with assms(1,2) have "factor_sound (slot s c)"
      by (simp add: kept_def list_all_length slot_def)
    then obtain e v where ev: "entry_factor (slot s c) = Fin e"
      "nominal_speed (slot s c) = Fin v" "0 \<le> v" by (rule factor_soundD)
    from forward_entry_factor_range [OF ev, of st ?prev]
    obtain m where m: "forward_entry_factor st ?prev (slot s c) = Fin m" "m \<le> e"
      by auto
    from assms(3) show ?thesis
      unfolding s' m(1) pairs_within_def
      by (auto intro: pair_lowered [OF _ ev(1) m(2)])
  qed
qed

lemma calculate_trapezoid_pairs:
  assumes "pairs_within st s lo hi" "calculate_trapezoid_for_block st block e x s = Ok s'"
  shows "pairs_within st s' lo hi"
proof (cases block)
  case None
  with assms show ?thesis by (simp add: calculate_trapezoid_for_block_def)
next
  case (Some c)
  with assms(2) obtain b' where b': "trapezoid st (block_buffer s ! c) e x = Ok b'"
    and s': "s' = store c b' s"
    by (auto simp: calculate_trapezoid_for_block_def bind_result_def split: result.splits)
  from trapezoid_frame [OF b'] obtain ir au da where
    "b' = (slot s c)\<lparr>initial_rate := ir, accelerate_until := au, decelerate_after := da\<rparr>"
    by (auto simp: slot_def)
  with assms(1) show ?thesis
    unfolding s' pairs_within_def by (auto intro: pair_profile)
qed

lemma trapezoid_step_pairs:
  assumes "pairs_within st s lo hi" "trapezoid_step st n k s = Ok s'"
  shows "pairs_within st s' lo hi"
  using assms calculate_trapezoid_pairs [OF assms(1)]
  by (cases n) (auto simp: trapezoid_step_def)

lemma to_int8_le: "to_int8 n \<le> 127"
  using signed_take_bit_int_less_exp [of 7 n] by (simp add: to_int8_def)

lemma pairs_within_empty: "hi \<le> lo \<Longrightarrow> pairs_within st s lo hi"
  by (auto simp: pairs_within_def)

lemma reverse_kernel_pairs:
  assumes kept: "kept P" and fin: "\<And>b. P b \<Longrightarrow> speeds_finite b"
    and jerk: "max_jerk st = Fin j" "0 < j"
    and inv: "list_all P (block_buffer u)" and c: "c < length (block_buffer u)"
  shows "b \<noteq> c \<Longrightarrow> jerk_within st (slot u a) (slot u b) \<Longrightarrow>
      jerk_within st (slot (planner_reverse_pass_kernel st previous (Some c) next u) a)
        (slot (planner_reverse_pass_kernel st previous (Some c) next u) b)"
    and "a < length (block_buffer u) \<Longrightarrow> a \<noteq> c \<Longrightarrow> previous = None \<or> previous = Some a \<Longrightarrow>
      jerk_within st (slot (planner_reverse_pass_kernel st previous (Some c) next u) a)
        (slot (planner_reverse_pass_kernel st previous (Some c) next u) c)"
proof -
  let ?r = "reverse_entry_factor st (map_option (slot u) previous) (slot u c) (exit_at u next)"
  let ?u = "store c ((slot u c)\<lparr>entry_factor := ?r\<rparr>) u"
  have u': "planner_reverse_pass_kernel st previous (Some c) next u = ?u"
    by (rule reverse_kernel_store)
  show "b \<noteq> c \<Longrightarrow> jerk_within st (slot u a) (slot u b) \<Longrightarrow>
      jerk_within st (slot (planner_reverse_pass_kernel st previous (Some c) next u) a)
        (slot (planner_reverse_pass_kernel st previous (Some c) next u) b)"
    unfolding u' by (rule pair_other)
  show "jerk_within st (slot (planner_reverse_pass_kernel st previous (Some c) next u) a)
        (slot (planner_reverse_pass_kernel st previous (Some c) next u) c)"
    if a: "a < length (block_buffer u)" "a \<noteq> c" and p: "previous = None \<or> previous = Some a"
  proof -
    from inv c a(1) have P: "P (slot u c)" "P (slot u a)"
      by (simp_all add: list_all_length slot_def)
    with kept have "factor_sound (slot u c)" by (simp add: kept_def)
    then obtain v where v: "nominal_speed (slot u c) = Fin v" "0 \<le> v" by (rule factor_soundD)
    from P fin junction_jerk_finite obtain x where
      x: "junction_jerk (slot u a) (slot u c) = Fin x" "0 \<le> x"
      by blast
    from reverse_entry_factor_range [OF jerk v, of "map_option (slot u) previous" "exit_at u next"]
    obtain e where e: "?r = Fin e" "0 \<le> e"
      "\<And>prev x. map_option (slot u) previous = Some prev \<Longrightarrow>
          junction_jerk prev (slot u c) = Fin x \<Longrightarrow> x * e \<le> j"
      by blast
    have "x * e \<le> j"
    proof (cases previous)
      case None
      then have "e = 0" using e(1) by (simp add: reverse_entry_factor_def)
      with jerk(2) show ?thesis by simp
    next
      case (Some q)
      with p have "map_option (slot u) previous = Some (slot u a)" by simp
      from e(3) [OF this x(1)] show ?thesis .
    qed
    from jerk_within_new [OF x(1) jerk(1) this] a(2) c show ?thesis
      unfolding u' e(1) by (simp add: slot_store)
  qed
qed

lemma reverse_pass_pairs:
  assumes kept: "kept P" and fin: "\<And>b. P b \<Longrightarrow> speeds_finite b"
    and jerk: "max_jerk st = Fin j" "0 < j"
    and inv: "list_all P (block_buffer s)"
    and idx: "0 \<le> block_buffer_tail s" "block_buffer_tail s \<le> block_buffer_head s"
      "block_buffer_head s < BLOCK_BUFFER_SIZE s" "block_buffer_head s \<le> 127"
    and run: "planner_reverse_pass st s = Some (Ok s')"
  shows "pairs_within st s' (block_buffer_tail s) (block_buffer_head s)"
proof -
  define T where "T = block_buffer_tail s"
  define H where "H = block_buffer_head s"
  define R where "R = (\<lambda>i (w :: block_ptr \<times> block_ptr \<times> block_ptr) u t.
      t = u \<and> same_shape s u \<and> list_all P (block_buffer u) \<and> T \<le> i \<and> i \<le> H \<and>
      fst w = ptr_upto H (i + 1) \<and> fst (snd w) = ptr_upto H (i + 2) \<and>
      pairs_within st u (i + 1) H)"
  from run obtain w s1 where
    loop: "reverse_loop st (to_int8 (block_buffer_head s)) (None, None, None) s = Some (Ok (w, s1))"
    and s': "s' = planner_reverse_pass_kernel st None (fst w) (fst (snd w)) s1"
    by (auto simp: planner_reverse_pass_def split: option.splits result.splits)
  from idx have start_index: "to_int8 (block_buffer_head s) = H"
    by (simp add: to_int8_small H_def)
  have "pairs_within st s (H + 1) H"
    by (simp add: pairs_within_empty)
  then have start: "R H (None, None, None) s s"
    using inv idx by (simp add: R_def ptr_upto_def T_def H_def)
  have step: "R (to_int8 (c_rem (i - 1) (BLOCK_BUFFER_SIZE u))) (Some k, fst w, fst (snd w))
        (planner_reverse_pass_kernel st (Some k) (fst w) (fst (snd w)) u)
        (planner_reverse_pass_kernel st (Some k) (fst w) (fst (snd w)) t)"
    if rel: "R i w u t" and ne: "i \<noteq> block_buffer_tail u" and addr: "addr_of u i = Ok k"
    for i k w u t
  proof -
    from rel have tu: "t = u" and shape: "same_shape s u" and P: "list_all P (block_buffer u)"
      and range: "T \<le> i" "i \<le> H" and win: "fst w = ptr_upto H (i + 1)"
      "fst (snd w) = ptr_upto H (i + 2)" and pairs: "pairs_within st u (i + 1) H"
      by (simp_all add: R_def)
    from shape have tail: "block_buffer_tail u = T" and size: "BLOCK_BUFFER_SIZE u = BLOCK_BUFFER_SIZE s"
      and len: "length (block_buffer u) = length (block_buffer s)"
      by (simp_all add: same_shape_def T_def BLOCK_BUFFER_SIZE_def)
    from ne tail range idx have i: "T < i" "0 < i" "i \<le> 127" "i < BLOCK_BUFFER_SIZE s"
      by (simp_all add: T_def H_def)
    from addr have k: "k = nat i" by (auto simp: addr_of_def split: if_splits)
    from i have next_index: "to_int8 (c_rem (i - 1) (BLOCK_BUFFER_SIZE u)) = i - 1"
      by (simp add: size c_rem_small to_int8_small)
    let ?u = "planner_reverse_pass_kernel st (Some k) (fst w) (fst (snd w)) u"
    have shape': "same_shape s ?u"
      using shape by (rule same_shape_trans) simp
    have P': "list_all P (block_buffer ?u)"
      by (rule reverse_kernel_kept [OF kept jerk P])
    have win': "Some k = ptr_upto H i"
      using range k by (simp add: ptr_upto_def)
    have pairs': "pairs_within st ?u i H"
    proof (cases "i = H")
      case True
      then show ?thesis by (simp add: pairs_within_empty)
    next
      case False
      with range have lt: "i < H" by simp
      define c where "c = nat (i + 1)"
      from lt i idx have c: "c < length (block_buffer u)" "k < length (block_buffer u)" "k \<noteq> c"
        by (simp_all add: c_def k len H_def BLOCK_BUFFER_SIZE_def nat_less_iff)
      from lt have cur: "fst w = Some c" by (simp add: win ptr_upto_def c_def)
      show ?thesis
        unfolding pairs_within_def
      proof (intro allI impI)
        fix j
        assume j: "i < j \<and> j \<le> H"
        show "jerk_within st (slot ?u (nat (j - 1))) (slot ?u (nat j))"
        proof (cases "j = i + 1")
          case True
          then have "nat (j - 1) = k" "nat j = c" by (simp_all add: k c_def)
          with reverse_kernel_pairs(2) [OF kept fin jerk P c(1) c(2,3), of "Some k" "fst (snd w)"]
          show ?thesis by (simp add: cur)
        next
          case False
          with j i have "nat j \<noteq> c" by (simp add: c_def)
          moreover from pairs j False
          have "jerk_within st (slot u (nat (j - 1))) (slot u (nat j))"
            by (simp add: pairs_within_def)
          ultimately show ?thesis
            unfolding cur
            using reverse_kernel_pairs(1) [OF kept fin jerk P c(1)] by blast
        qed
      qed
    qed
    from win(1) have win'': "fst w = ptr_upto H (1 + i)" by (simp add: add.commute)
    from tu shape' P' range i win' win'' pairs' show ?thesis
      unfolding next_index by (simp add: R_def)
  qed
  have shape: "block_buffer_tail t = block_buffer_tail u \<and> BLOCK_BUFFER_SIZE t = BLOCK_BUFFER_SIZE u"
    if "R i w u t" for i w u t
    using that by (simp add: R_def)
  have "\<exists>t'. reverse_loop st H (None, None, None) s = Some (Ok (w, t')) \<and>
      R (block_buffer_tail s1) w s1 t'"
    by (rule reverse_loop_simulation [where R = R, OF _ _ loop [unfolded start_index] start])
      (rule step, assumption+, rule shape, assumption)
  then have final: "R (block_buffer_tail s1) w s1 s1"
    by (auto simp: R_def)
  then have shape1: "same_shape s s1" by (simp add: R_def)
  then have tail1: "block_buffer_tail s1 = T" by (simp add: same_shape_def T_def)
  from final have s1: "same_shape s s1" "list_all P (block_buffer s1)"
    "fst w = ptr_upto H (T + 1)" "pairs_within st s1 (T + 1) H"
    unfolding tail1 by (simp_all add: R_def)
  show ?thesis
  proof (cases "T = H")
    case True
    then have "fst w = None" by (simp add: s1(3) ptr_upto_def)
    with True show ?thesis
      unfolding s' by (simp add: pairs_within_empty T_def H_def)
  next
    case False
    with idx have lt: "T < H" by (simp add: T_def H_def)
    define c where "c = nat (T + 1)"
    from lt idx s1(1) have c: "c < length (block_buffer s1)"
      by (simp add: c_def same_shape_def H_def T_def BLOCK_BUFFER_SIZE_def nat_less_iff)
    from lt have cur: "fst w = Some c" by (simp add: s1(3) ptr_upto_def c_def)
    have "pairs_within st s' T H"
      unfolding pairs_within_def
    proof (intro allI impI)
      fix j
      assume j: "T < j \<and> j \<le> H"
      show "jerk_within st (slot s' (nat (j - 1))) (slot s' (nat j))"
      proof (cases "j = T + 1")
        case True
        from idx have T: "nat T < length (block_buffer s1)" "nat T \<noteq> c"
          using lt s1(1)
          by (simp_all add: c_def same_shape_def H_def T_def BLOCK_BUFFER_SIZE_def nat_less_iff)
        from True have "nat (j - 1) = nat T" "nat j = c" by (simp_all add: c_def)
        with reverse_kernel_pairs(2) [OF kept fin jerk s1(2) c T, of None "fst (snd w)"]
        show ?thesis unfolding s' cur by simp
      next
        case False
        with j idx have "nat j \<noteq> c" by (simp add: c_def T_def)
        moreover from s1(4) j False
        have "jerk_within st (slot s1 (nat (j - 1))) (slot s1 (nat j))"
          by (simp add: pairs_within_def)
        ultimately show ?thesis
          unfolding s' cur
          using reverse_kernel_pairs(1) [OF kept fin jerk s1(2) c] by blast
      qed
    qed
    then show ?thesis by (simp add: T_def H_def)
  qed
qed

lemma forward_pass_pairs:
  assumes "kept P" "list_all P (block_buffer s)" "pairs_within st s lo hi"
    and run: "planner_forward_pass_reading g st s = Some (Ok s')"
  shows "pairs_within st s' lo hi"
proof -
  from run obtain w s1 where
    loop: "forward_loop_reading g st (to_int8 (block_buffer_tail s)) (None, None, None) s =
             Some (Ok (w, s1))"
    and s': "planner_forward_pass_kernel_reading g st (fst (snd w)) (snd (snd w)) None s1 = Ok s'"
    by (auto simp: planner_forward_pass_reading_def split: option.splits result.splits)
  have "\<exists>t'. forward_loop_reading g st (to_int8 (block_buffer_tail s)) (None, None, None) s =
        Some (Ok (w, t')) \<and>
        (t' = s1 \<and> list_all P (block_buffer s1) \<and> same_shape s s1 \<and> pairs_within st s1 lo hi)"
  proof (rule forward_loop_reading_simulation
        [where R = "\<lambda>i w u t. t = u \<and> list_all P (block_buffer u) \<and> same_shape s u \<and>
            pairs_within st u lo hi",
          OF _ _ loop])
    fix i k w u t u1
    assume "t = u \<and> list_all P (block_buffer u) \<and> same_shape s u \<and> pairs_within st u lo hi"
      and "planner_forward_pass_kernel_reading g st (fst (snd w)) (snd (snd w)) (Some k) u = Ok u1"
    then show "\<exists>t1. planner_forward_pass_kernel_reading g st (fst (snd w)) (snd (snd w)) (Some k) t
          = Ok t1 \<and> t1 = u1 \<and> list_all P (block_buffer u1) \<and> same_shape s u1 \<and>
          pairs_within st u1 lo hi"
      using forward_kernel_kept [OF assms(1)] same_shape_trans [OF _ forward_kernel_shape]
        forward_kernel_pairs [OF assms(1)]
      by auto
  qed (simp_all add: assms(2,3))
  with s' forward_kernel_pairs [OF assms(1)] show ?thesis
    by auto
qed

lemma trapezoids_pass_pairs:
  assumes "pairs_within st s lo hi"
    and run: "planner_recalculate_trapezoids st s = Some (Ok s')"
  shows "pairs_within st s' lo hi"
proof -
  from run obtain n s1 where
    loop: "trapezoids_loop st (to_int8 (block_buffer_tail s)) None s = Some (Ok (Some n, s1))"
    and s': "calculate_trapezoid_for_block st (Some n) (entry_factor (block_buffer s1 ! n))
               (Fin 0) s1 = Ok s'"
    by (auto simp: planner_recalculate_trapezoids_def split: option.splits result.splits)
  have "\<exists>t'. trapezoids_loop st (to_int8 (block_buffer_tail s)) None s = Some (Ok (Some n, t'))
      \<and> (t' = s1 \<and> same_shape s s1 \<and> pairs_within st s1 lo hi)"
  proof (rule trapezoids_loop_simulation
        [where R = "\<lambda>i n u t. t = u \<and> same_shape s u \<and> pairs_within st u lo hi",
          OF _ _ loop])
    fix i k n u t u1
    assume "t = u \<and> same_shape s u \<and> pairs_within st u lo hi"
      and "trapezoid_step st n k u = Ok u1"
    then show "\<exists>t1. trapezoid_step st n k t = Ok t1 \<and> t1 = u1 \<and>
        same_shape s u1 \<and> pairs_within st u1 lo hi"
      using trapezoid_step_pairs same_shape_trans [OF _ trapezoid_step_shape]
      by auto
  qed (simp_all add: assms(1))
  with s' calculate_trapezoid_pairs show ?thesis
    by auto
qed

lemma recalculate_pairs:
  assumes kept: "kept P" and fin: "\<And>b. P b \<Longrightarrow> speeds_finite b"
    and jerk: "max_jerk st = Fin j" "0 < j"
    and inv: "list_all P (block_buffer s)"
    and idx: "0 \<le> block_buffer_tail s" "block_buffer_tail s \<le> block_buffer_head s"
      "block_buffer_head s < BLOCK_BUFFER_SIZE s" "block_buffer_head s \<le> 127"
    and run: "planner_recalculate_reading g st s = Some (Ok s')"
  shows "pairs_within st s' (block_buffer_tail s) (block_buffer_head s)"
proof -
  from run obtain s1 s2 where
    r: "planner_reverse_pass st s = Some (Ok s1)"
    and f: "planner_forward_pass_reading g st s1 = Some (Ok s2)"
    and t: "planner_recalculate_trapezoids st s2 = Some (Ok s')"
    by (auto simp: planner_recalculate_reading_def split: option.splits result.splits)
  from reverse_pass_kept [OF kept jerk inv r] have 1: "list_all P (block_buffer s1)"
    by simp
  from reverse_pass_pairs [OF kept fin jerk inv idx r]
  have "pairs_within st s1 (block_buffer_tail s) (block_buffer_head s)" .
  from forward_pass_pairs [OF kept 1 this f]
  have "pairs_within st s2 (block_buffer_tail s) (block_buffer_head s)" .
  from trapezoids_pass_pairs [OF this t] show ?thesis .
qed

lemma queue_slots_straight:
  assumes "0 \<le> block_buffer_tail s" "block_buffer_tail s \<le> block_buffer_head s"
    "block_buffer_head s < BLOCK_BUFFER_SIZE s"
  shows "queue_slots s =
    map (\<lambda>k. nat (block_buffer_tail s + int k)) [0 ..< nat (block_buffer_head s - block_buffer_tail s)]"
  using assms by (simp add: queue_slots_def)

lemma pairs_within_bounded:
  assumes idx: "0 \<le> block_buffer_tail s" "block_buffer_tail s \<le> block_buffer_head s"
    "block_buffer_head s < BLOCK_BUFFER_SIZE s"
    and pairs: "pairs_within st s (block_buffer_tail s) (block_buffer_head s)"
  shows "jerk_bounded st s"
  unfolding jerk_bounded_def list_all_length
proof (intro allI impI)
  fix n
  let ?q = "queued_blocks s"
  have len: "length ?q = nat (block_buffer_head s - block_buffer_tail s)"
    by (simp add: queued_blocks_def queue_slots_straight [OF idx])
  have q: "?q ! k = slot s (nat (block_buffer_tail s + int k))"
    if "k < nat (block_buffer_head s - block_buffer_tail s)" for k
    using that by (simp add: queued_blocks_def queue_slots_straight [OF idx] slot_def)
  assume "n < length (zip ?q (tl ?q))"
  then have n: "Suc n < nat (block_buffer_head s - block_buffer_tail s)"
    by (simp add: len)
  then have "zip ?q (tl ?q) ! n = (?q ! n, ?q ! Suc n)"
    by (simp add: len nth_tl)
  also have "\<dots> = (slot s (nat (block_buffer_tail s + int n)),
      slot s (nat (block_buffer_tail s + int (Suc n))))"
    using n by (simp only: q Suc_lessD)
  finally have pair: "zip ?q (tl ?q) ! n = (slot s (nat (block_buffer_tail s + int n)),
      slot s (nat (block_buffer_tail s + int (Suc n))))" .
  define j where "j = block_buffer_tail s + int (Suc n)"
  from n have "block_buffer_tail s < j \<and> j \<le> block_buffer_head s"
    by (simp add: j_def)
  with pairs have "jerk_within st (slot s (nat (j - 1))) (slot s (nat j))"
    unfolding pairs_within_def by blast
  moreover have "j - 1 = block_buffer_tail s + int n" by (simp add: j_def)
  ultimately show "case zip ?q (tl ?q) ! n of (a, b) \<Rightarrow> jerk_within st a b"
    unfolding pair by (simp add: j_def)
qed

lemma recalculate_returns_ordered:
  assumes idx: "0 \<le> block_buffer_tail s" "block_buffer_tail s < BLOCK_BUFFER_SIZE s"
    "0 \<le> block_buffer_head s" "block_buffer_head s < BLOCK_BUFFER_SIZE s"
    "BLOCK_BUFFER_SIZE s \<le> 128"
    and run: "planner_recalculate_reading g st s = Some (Ok s')"
  shows "block_buffer_tail s < block_buffer_head s"
proof (rule ccontr)
  assume "\<not> block_buffer_tail s < block_buffer_head s"
  then consider "block_buffer_head s < block_buffer_tail s" | "block_buffer_head s = block_buffer_tail s"
    by fastforce
  then show False
  proof cases
    case 1
    from reverse_pass_wrapped [OF idx(3) 1 idx(2,5)] run show False
      by (simp add: planner_recalculate_reading_def)
  next
    case 2
    with idx have small: "to_int8 (block_buffer_head s) = block_buffer_tail s"
      "to_int8 (block_buffer_tail s) = block_buffer_head s"
      by (simp_all add: to_int8_small)
    have "planner_reverse_pass st s = Some (Ok s)"
      by (simp add: planner_reverse_pass_def small reverse_loop_exit)
    moreover have "planner_forward_pass_reading g st s = Some (Ok s)"
      by (simp add: planner_forward_pass_reading_def small forward_loop_reading_exit
          planner_forward_pass_kernel_reading_def)
    ultimately show False
      using run trapezoids_empty [OF small(2), of st]
      by (simp add: planner_recalculate_reading_def)
  qed
qed

lemma speeds_finite_profile:
  assumes "steps_per_mm st = (Fin a, Fin b, Fin c)" "a \<noteq> 0" "b \<noteq> 0" "c \<noteq> 0"
    and "0 \<le> microseconds"
    and "block_profile st management x y z microseconds (Fin mm) b0 = Ok b'"
  shows "speeds_finite b'"
  using block_profile_frame [OF assms(6,5)] assms(1-4)
  by (auto simp: speeds_finite_def is_number_def)

lemma c_rem_self: "c_rem a a = 0"
  by (simp add: c_rem_def)

lemma queued_blocks_store_head:
  assumes "0 \<le> block_buffer_head s" "block_buffer_head s < BLOCK_BUFFER_SIZE s"
  shows "queued_blocks (store (nat (block_buffer_head s)) b s) = queued_blocks s"
proof -
  have slots: "queue_slots (store (nat (block_buffer_head s)) b s) = queue_slots s"
    by (simp add: queue_slots_def store_def BLOCK_BUFFER_SIZE_def)
  show ?thesis
    unfolding queued_blocks_def slots
    using queue_slots_not_head [OF assms]
    by (auto simp: store_def)
qed

text \<open>
  Claim C7: after \<^verbatim>\<open>plan_buffer_line\<close> returns with acceleration management on, the
  junction jerk of every two adjacent queued blocks, multiplied by the entry factor of
  the later one, is at most \<open>max_jerk\<close>. The reverse pass sets the entry factor of
  every slot from \<open>tail + 1\<close> to the head to at most \<open>max_jerk / jerk\<close>, the forward pass
  only lowers entry factors, and phase 3 does not write them. The speeds of every slot
  are numbers, which admission keeps when the steps per millimetre are numbers other
  than 0; the indices are those of a buffer of at most 128 slots. A call that admits no
  block (all step counts 0) leaves the queue as it was, so the bound is assumed before
  the call.
\<close>

theorem junction_jerk_stays_within_max_jerk:
  assumes jerk: "max_jerk st = Fin j" "0 < j"
    and steps: "steps_per_mm st = (Fin a, Fin b, Fin c)" "a \<noteq> 0" "b \<noteq> 0" "c \<noteq> 0"
    and inv: "list_all (\<lambda>b. factor_sound b \<and> speeds_finite b) (block_buffer s)"
    and idx: "0 \<le> block_buffer_tail s" "block_buffer_tail s < BLOCK_BUFFER_SIZE s"
      "BLOCK_BUFFER_SIZE s \<le> 128"
    and before: "acceleration_management s" "jerk_bounded st s"
    and move: "0 \<le> microseconds" "0 \<le> mm"
    and run: "plan_buffer_line_reading at_null st x y z microseconds (Fin mm) s = Some (Ok s')"
  shows "jerk_bounded st s' \<and>
    list_all (\<lambda>b. factor_sound b \<and> speeds_finite b) (block_buffer s') \<and>
    block_buffer_tail s' = block_buffer_tail s \<and>
    BLOCK_BUFFER_SIZE s' = BLOCK_BUFFER_SIZE s \<and> acceleration_management s'"
proof -
  let ?P = "\<lambda>b. factor_sound b \<and> speeds_finite b"
  have all: "list_all ?P (block_buffer s') \<and> length (block_buffer s') = length (block_buffer s)"
  proof (rule admission_kept [OF kept_finite jerk inv _ _ run])
    fix b sx sy sz
    assume "?P b"
    then show "?P (b\<lparr>steps_x := sx, steps_y := sy, steps_z := sz,
        step_event_count := max sx (max sy sz)\<rparr>)"
      by (simp add: factor_sound_def speeds_finite_def)
  next
    fix b0 b' management
    assume b: "?P b0" "block_profile st management x y z microseconds (Fin mm) b0 = Ok b'"
    from b(1) have "factor_sound b0" by simp
    from factor_sound_profile [OF this move b(2)] speeds_finite_profile [OF steps move(1) b(2)]
    show "?P b'" by simp
  qed
  from run show ?thesis
  proof (cases rule: admission_cases)
    case (zero block)
    from zero(5) queued_blocks_store_head [OF zero(1,2)] before all show ?thesis
      by (simp add: jerk_bounded_def BLOCK_BUFFER_SIZE_def store_def)
  next
    case (managed block block')
    let ?H = "block_buffer_head s" and ?T = "block_buffer_tail s"
    let ?s = "(store (nat ?H) block' s)\<lparr>block_buffer_head := c_rem (?H + 1) (BLOCK_BUFFER_SIZE s)\<rparr>"
    have size: "BLOCK_BUFFER_SIZE ?s = BLOCK_BUFFER_SIZE s"
      by (simp add: BLOCK_BUFFER_SIZE_def store_def)
    have tail: "block_buffer_tail ?s = ?T"
      by (simp add: store_def)
    have head: "block_buffer_head ?s = c_rem (?H + 1) (BLOCK_BUFFER_SIZE s)"
      by simp
    from managed(1,2) inv have "?P (block_buffer s ! nat ?H)"
      by (simp add: list_all_length BLOCK_BUFFER_SIZE_def)
    with block_steps_frame [OF managed(3)] have "?P block"
      by (auto simp: factor_sound_def speeds_finite_def)
    then have "factor_sound block" by simp
    from factor_sound_profile [OF this move managed(5)]
      speeds_finite_profile [OF steps move(1) managed(5)] inv
    have inv': "list_all ?P (block_buffer ?s)"
      by (simp add: store_def list_all_update)
    have next_head: "c_rem (?H + 1) (BLOCK_BUFFER_SIZE s) = ?H + 1 \<and> ?H + 1 < BLOCK_BUFFER_SIZE s"
    proof (cases "?H + 1 = BLOCK_BUFFER_SIZE s")
      case True
      then have "block_buffer_head ?s = 0" by (simp add: c_rem_self)
      with recalculate_returns_ordered [OF _ _ _ _ _ managed(7)] idx True managed(1)
      show ?thesis unfolding size tail by simp
    next
      case False
      with managed(1,2) show ?thesis by (simp add: c_rem_small)
    qed
    then have head': "block_buffer_head ?s = ?H + 1" by simp
    from recalculate_returns_ordered [OF _ _ _ _ _ managed(7)] idx managed(1) next_head
    have "?T < ?H + 1" unfolding size tail head' by simp
    with idx next_head have idx': "0 \<le> block_buffer_tail ?s"
      "block_buffer_tail ?s \<le> block_buffer_head ?s"
      "block_buffer_head ?s < BLOCK_BUFFER_SIZE ?s" "block_buffer_head ?s \<le> 127"
      unfolding size tail head' by simp_all
    from recalculate_pairs [OF kept_finite _ jerk inv' idx' managed(7)]
    have pairs: "pairs_within st s' (block_buffer_tail ?s) (block_buffer_head ?s)" by simp
    from recalculate_kept [OF kept_finite jerk inv' managed(7)]
    have shape: "same_shape ?s s'" by simp
    then have eq: "block_buffer_tail s' = block_buffer_tail ?s"
      "block_buffer_head s' = block_buffer_head ?s"
      "BLOCK_BUFFER_SIZE s' = BLOCK_BUFFER_SIZE ?s"
      "acceleration_management s' = acceleration_management ?s"
      by (simp_all add: same_shape_def BLOCK_BUFFER_SIZE_def)
    from pairs idx' have "jerk_bounded st s'"
      unfolding eq [symmetric] by (intro pairs_within_bounded) simp_all
    with all eq before show ?thesis
      by (simp add: store_def BLOCK_BUFFER_SIZE_def)
  next
    case (unmanaged block block')
    with before show ?thesis by simp
  qed
qed

theorem junction_jerk_stays_within_max_jerk_witness:
  "jerk_bounded scenario_settings
     (ring [x_move_block, y_move_block, zero_block\<lparr>entry_factor := Fin (1/120)\<rparr>] 2 0 True) \<and>
   queued_blocks
     (ring [x_move_block, y_move_block, zero_block\<lparr>entry_factor := Fin (1/120)\<rparr>] 2 0 True) =
     [x_move_block, y_move_block]"
proof -
  let ?s = "ring [x_move_block, zero_block, zero_block] 1 0 True"
  let ?s' = "ring [x_move_block, y_move_block, zero_block\<lparr>entry_factor := Fin (1/120)\<rparr>] 2 0 True"
  have "max_jerk scenario_settings = Fin 5" "(0 :: real) < 5"
    "steps_per_mm scenario_settings = (Fin 100, Fin 100, Fin 100)"
    "(100 :: real) \<noteq> 0"
    by (simp_all add: scenario_settings_def)
  moreover have "list_all (\<lambda>b. factor_sound b \<and> speeds_finite b) (block_buffer ?s)"
    by (simp add: ring_def zero_block_def x_move_block_def factor_sound_def unit_range_def
        nonnegative_def speeds_finite_def is_number_def)
  moreover have "0 \<le> block_buffer_tail ?s" "block_buffer_tail ?s < BLOCK_BUFFER_SIZE ?s"
    "BLOCK_BUFFER_SIZE ?s \<le> 128" "acceleration_management ?s"
    by (simp_all add: ring_def BLOCK_BUFFER_SIZE_def)
  moreover have "jerk_bounded scenario_settings ?s"
    by (simp add: jerk_bounded_def queued_blocks_def queue_slots_def ring_def BLOCK_BUFFER_SIZE_def)
  moreover have "(0 :: int) \<le> 1000000" "(0 :: real) \<le> 10"
    by simp_all
  moreover note second_admission_reading
  ultimately have "jerk_bounded scenario_settings ?s'"
    using junction_jerk_stays_within_max_jerk
      [of scenario_settings 5 100 100 100 ?s 1000000 10 zero_block 0 1000 0 ?s']
    by simp
  moreover have "queued_blocks ?s' = [x_move_block, y_move_block]"
    by (simp add: queued_blocks_def queue_slots_def ring_def BLOCK_BUFFER_SIZE_def upt_rec)
  ultimately show ?thesis by simp
qed

subsection \<open>Recalculating twice\<close>

text \<open>The passes read, of the fields they write, only the entry factors: the reverse
  pass those it has written itself, the forward pass also the one of the tail block,
  which it may lower, and phase 3 those of the blocks from the tail to the head. So two
  runs of a pass on states that are alike end in states that are alike at more slots.\<close>

lemma unplanned_update [simp]:
  "unplanned (b\<lparr>entry_factor := r\<rparr>) = unplanned b"
  "unplanned (b\<lparr>initial_rate := ir, accelerate_until := au, decelerate_after := da\<rparr>) =
     unplanned b"
  by (simp_all add: unplanned_def)

lemma profile_of_update [simp]:
  "profile_of (b\<lparr>entry_factor := r\<rparr>) = profile_of b"
  "profile_of (b\<lparr>initial_rate := ir, accelerate_until := au, decelerate_after := da\<rparr>) =
     (ir, au, da)"
  by (simp_all add: profile_of_def)

lemma unplanned_fields:
  assumes "unplanned a = unplanned b"
  shows "speed_x a = speed_x b" "speed_y a = speed_y b" "speed_z a = speed_z b"
    "nominal_speed a = nominal_speed b" "millimeters a = millimeters b"
    "nominal_rate a = nominal_rate b" "rate_delta a = rate_delta b"
    "step_event_count a = step_event_count b"
  using assms by (cases a; cases b; simp add: unplanned_def)+

lemma block_eqI:
  assumes "unplanned a = unplanned b" "entry_factor a = entry_factor b"
    "profile_of a = profile_of b"
  shows "a = b"
  using assms by (cases a; cases b) (simp add: unplanned_def profile_of_def)

lemma alike_refl [simp]: "alike E P s s"
  by (simp add: alike_def)

lemma alike_shape: "alike E P s t \<Longrightarrow> same_shape s t"
  by (simp add: alike_def)

lemma alike_mono:
  assumes "alike E P s t" "\<And>c. E' c \<Longrightarrow> E c" "\<And>c. P' c \<Longrightarrow> P c"
  shows "alike E' P' s t"
  using assms by (auto simp: alike_def)

lemma alike_trans:
  assumes "alike E P s t" "alike E' P' t u"
  shows "alike (\<lambda>c. E c \<and> E' c) (\<lambda>c. P c \<and> P' c) s u"
  using assms by (auto simp: alike_def same_shape_def)

lemma alike_all:
  assumes "alike (\<lambda>c. True) (\<lambda>c. True) s t"
  shows "t = s"
proof -
  from assms have shape: "same_shape s t"
    and slots: "\<And>c. c < length (block_buffer s) \<Longrightarrow> slot t c = slot s c"
    by (auto simp: alike_def intro: block_eqI)
  from shape slots have "block_buffer t = block_buffer s"
    by (intro nth_equalityI) (simp_all add: same_shape_def slot_def)
  with shape show ?thesis
    by (cases s; cases t) (simp add: same_shape_def)
qed

lemma store_length [simp]: "length (block_buffer (store c b s)) = length (block_buffer s)"
  by (simp add: store_def)

lemma same_shape_stores: "same_shape u t \<Longrightarrow> same_shape (store c b u) (store c b' t)"
  by (simp add: same_shape_def store_def)

lemma same_shape_length: "same_shape s t \<Longrightarrow> length (block_buffer t) = length (block_buffer s)"
  by (simp add: same_shape_def)

lemma alike_store_factor:
  assumes "alike E P s u" "\<not> E c"
  shows "alike E P s (store c ((slot u c)\<lparr>entry_factor := r\<rparr>) u)"
  using assms same_shape_trans [OF _ same_shape_store]
  by (auto simp: alike_def slot_store)

lemma alike_store_profile:
  assumes "alike E P s u" "\<not> P c"
  shows "alike E P s (store c ((slot u c)\<lparr>initial_rate := ir, accelerate_until := au,
      decelerate_after := da\<rparr>) u)"
  using assms same_shape_trans [OF _ same_shape_store]
  by (auto simp: alike_def slot_store)

lemma alike_store_factors:
  assumes "alike E P u t"
  shows "alike (\<lambda>x. E x \<or> c = x) P (store c ((slot u c)\<lparr>entry_factor := r\<rparr>) u)
    (store c ((slot t c)\<lparr>entry_factor := r\<rparr>) t)"
  using assms same_shape_stores same_shape_length
  by (auto simp: alike_def slot_store)

lemma alike_store_profiles:
  assumes "alike E P u t"
  shows "alike E (\<lambda>x. P x \<or> c = x)
    (store c ((slot u c)\<lparr>initial_rate := ir, accelerate_until := au, decelerate_after := da\<rparr>) u)
    (store c ((slot t c)\<lparr>initial_rate := ir, accelerate_until := au, decelerate_after := da\<rparr>) t)"
  using assms same_shape_stores same_shape_length
  by (auto simp: alike_def slot_store)

lemma reverse_entry_factor_cong:
  assumes "unplanned p = unplanned p'" "unplanned c = unplanned c'"
  shows "reverse_entry_factor st (Some p) c x = reverse_entry_factor st (Some p') c' x"
  using unplanned_fields [OF assms(1)] unplanned_fields [OF assms(2)]
  by (simp add: reverse_entry_factor_def junction_jerk_def Let_def)

lemma forward_entry_factor_cong:
  assumes "entry_factor p = entry_factor p'" "millimeters p = millimeters p'"
    and "unplanned c = unplanned c'" "entry_factor c = entry_factor c'"
  shows "forward_entry_factor st p c = forward_entry_factor st p' c'"
  using assms(1,2,4) unplanned_fields [OF assms(3)]
  by (simp add: forward_entry_factor_def Let_def)

lemma dless_irrefl [simp]: "\<not> dless x x"
  by (cases x) simp_all

lemma forward_entry_factor_idem:
  "forward_entry_factor st g (c\<lparr>entry_factor := forward_entry_factor st g c\<rparr>) =
   forward_entry_factor st g c"
  by (simp add: forward_entry_factor_def Let_def)

lemma trapezoid_cong:
  assumes "unplanned b = unplanned b2" "trapezoid st b e x = Ok b'"
  shows "trapezoid st b2 e x2 =
    Ok (b2\<lparr>initial_rate := initial_rate b', accelerate_until := accelerate_until b',
          decelerate_after := decelerate_after b'\<rparr>)"
  using assms(2) unplanned_fields(6-8) [OF assms(1)]
  unfolding trapezoid_def final_rate_of_def bind_result_def
  by (auto split: result.splits if_splits prod.splits)

lemma reverse_kernel_effect:
  assumes "alike F Q s u" "\<And>c. current = Some c \<Longrightarrow> \<not> F c"
  shows "alike F Q s (planner_reverse_pass_kernel st previous current next u)"
  using assms by (cases current) (simp_all add: reverse_kernel_store alike_store_factor)

lemma exit_at_alike:
  assumes "alike E P u t" "\<And>d. next = Some d \<Longrightarrow> d < length (block_buffer u) \<and> E d"
  shows "exit_at t next = exit_at u next"
  using assms by (cases "next") (auto simp: exit_at_def alike_def)

lemma reverse_kernel_alike:
  assumes rel: "alike E P u t"
    and prev: "\<And>p. previous = Some p \<Longrightarrow> p < length (block_buffer u)"
    and cur: "\<And>c. current = Some c \<Longrightarrow> c < length (block_buffer u)"
    and nxt: "\<And>d. next = Some d \<Longrightarrow> d < length (block_buffer u) \<and> E d"
  shows "alike (\<lambda>x. E x \<or> current = Some x) P
    (planner_reverse_pass_kernel st previous current next u)
    (planner_reverse_pass_kernel st previous current next t)"
proof (cases current)
  case None
  with rel show ?thesis by simp
next
  case (Some c)
  from rel cur [OF Some] have c: "unplanned (slot t c) = unplanned (slot u c)"
    by (simp add: alike_def)
  have "reverse_entry_factor st (map_option (slot t) previous) (slot t c) (exit_at t next) =
      reverse_entry_factor st (map_option (slot u) previous) (slot u c) (exit_at u next)"
  proof (cases previous)
    case None
    then show ?thesis by (simp add: reverse_entry_factor_def)
  next
    case (Some p)
    from rel prev [OF Some] have "unplanned (slot t p) = unplanned (slot u p)"
      by (simp add: alike_def)
    from reverse_entry_factor_cong [OF this c] exit_at_alike [OF rel nxt] Some
    show ?thesis by simp
  qed
  with alike_store_factors [OF rel, of c] Some show ?thesis
    by (simp add: reverse_kernel_store)
qed

lemma forward_kernel_effect:
  assumes "alike F Q s u" "\<And>c. current = Some c \<Longrightarrow> \<not> F c"
    and "planner_forward_pass_kernel_reading g st previous current next u = Ok u'"
  shows "alike F Q s u'"
  using assms by (cases current) (auto simp: forward_kernel_reading_store alike_store_factor)

lemma forward_kernel_alike:
  assumes rel: "alike E P u t"
    and same: "\<And>c. current = Some c \<Longrightarrow>
      forward_entry_factor st (case previous of None \<Rightarrow> g | Some p \<Rightarrow> slot t p) (slot t c) =
      forward_entry_factor st (case previous of None \<Rightarrow> g | Some p \<Rightarrow> slot u p) (slot u c)"
    and run: "planner_forward_pass_kernel_reading g st previous current next u = Ok u'"
  shows "\<exists>t'. planner_forward_pass_kernel_reading g st previous current next' t = Ok t' \<and>
    alike (\<lambda>x. E x \<or> current = Some x) P u' t'"
proof (cases current)
  case None
  with rel run show ?thesis by simp
next
  case (Some c)
  with alike_store_factors [OF rel, of c] same [OF Some] run show ?thesis
    by (auto simp: forward_kernel_reading_store)
qed

lemma forward_entry_factor_alike:
  assumes rel: "alike E P u t"
    and "p < length (block_buffer u)" "c < length (block_buffer u)" "E p" "E c"
  shows "forward_entry_factor st (slot t p) (slot t c) =
    forward_entry_factor st (slot u p) (slot u c)"
proof -
  from assms have "unplanned (slot t p) = unplanned (slot u p)"
    "entry_factor (slot t p) = entry_factor (slot u p)"
    "unplanned (slot t c) = unplanned (slot u c)"
    "entry_factor (slot t c) = entry_factor (slot u c)"
    by (simp_all add: alike_def)
  from forward_entry_factor_cong [OF this(2) unplanned_fields(5) [OF this(1)] this(3,4)]
  show ?thesis .
qed

lemma calculate_trapezoid_exit:
  "calculate_trapezoid_for_block st block e x s = calculate_trapezoid_for_block st block e (Fin 0) s"
  using trapezoid_exit_factor_irrelevant [of st _ e x]
  by (cases block) (simp_all add: calculate_trapezoid_for_block_def)

lemma calculate_trapezoid_store:
  assumes "calculate_trapezoid_for_block st (Some c) e x u = Ok u'"
  shows "\<exists>b'. trapezoid st (slot u c) e x = Ok b' \<and>
    u' = store c ((slot u c)\<lparr>initial_rate := initial_rate b', accelerate_until := accelerate_until b',
        decelerate_after := decelerate_after b'\<rparr>) u"
proof -
  from assms obtain b' where b': "trapezoid st (slot u c) e x = Ok b'" and u': "u' = store c b' u"
    by (auto simp: calculate_trapezoid_for_block_def bind_result_def slot_def split: result.splits)
  from trapezoid_frame [OF b'] obtain ir au da where
    "b' = (slot u c)\<lparr>initial_rate := ir, accelerate_until := au, decelerate_after := da\<rparr>"
    by blast
  with b' u' show ?thesis by simp
qed

lemma calculate_trapezoid_effect:
  assumes "alike F Q s u" "\<not> Q c"
    and "calculate_trapezoid_for_block st (Some c) e x u = Ok u'"
  shows "alike F Q s u'"
  using calculate_trapezoid_store [OF assms(3)] alike_store_profile [OF assms(1,2)]
  by auto

lemma calculate_trapezoid_alike:
  assumes rel: "alike E P u t" and c: "c < length (block_buffer u)" "E c"
    and run: "calculate_trapezoid_for_block st (Some c) (entry_factor (slot u c)) x u = Ok u'"
  shows "\<exists>t'. calculate_trapezoid_for_block st (Some c) (entry_factor (slot t c)) x' t = Ok t' \<and>
    alike E (\<lambda>y. P y \<or> c = y) u' t'"
proof -
  from calculate_trapezoid_store [OF run] obtain b' where
    b': "trapezoid st (slot u c) (entry_factor (slot u c)) x = Ok b'"
    and u': "u' = store c ((slot u c)\<lparr>initial_rate := initial_rate b',
        accelerate_until := accelerate_until b', decelerate_after := decelerate_after b'\<rparr>) u"
    by blast
  from rel c have same: "unplanned (slot u c) = unplanned (slot t c)"
    "entry_factor (slot t c) = entry_factor (slot u c)"
    by (simp_all add: alike_def)
  from trapezoid_cong [OF same(1) b', of x'] same(2)
  have "calculate_trapezoid_for_block st (Some c) (entry_factor (slot t c)) x' t =
      Ok (store c ((slot t c)\<lparr>initial_rate := initial_rate b',
        accelerate_until := accelerate_until b', decelerate_after := decelerate_after b'\<rparr>) t)"
    by (simp add: calculate_trapezoid_for_block_def bind_result_def slot_def)
  with alike_store_profiles [OF rel, of c] u' show ?thesis by simp
qed

lemma trapezoid_step_effect:
  assumes "alike F Q s u" "\<And>c. n = Some c \<Longrightarrow> \<not> Q c"
    and "trapezoid_step st n k u = Ok u'"
  shows "alike F Q s u'"
  using assms calculate_trapezoid_effect [OF assms(1)]
  by (cases n) (auto simp: trapezoid_step_def)

lemma trapezoid_step_alike:
  assumes rel: "alike E P u t"
    and cur: "\<And>c. n = Some c \<Longrightarrow> c < length (block_buffer u) \<and> E c"
    and run: "trapezoid_step st n k u = Ok u'"
  shows "\<exists>t'. trapezoid_step st n k t = Ok t' \<and> alike E (\<lambda>y. P y \<or> n = Some y) u' t'"
proof (cases n)
  case None
  with rel run show ?thesis by (simp add: trapezoid_step_def)
next
  case (Some c)
  with run have "calculate_trapezoid_for_block st (Some c) (entry_factor (slot u c))
      (entry_factor (slot u k)) u = Ok u'"
    by (simp add: trapezoid_step_def slot_def)
  from calculate_trapezoid_alike [OF rel _ _ this, of "entry_factor (slot t k)"] cur [OF Some] Some
  show ?thesis by (simp add: trapezoid_step_def slot_def)
qed

lemma reverse_pass_alike:
  assumes idx: "0 \<le> block_buffer_tail s" "block_buffer_tail s < block_buffer_head s"
      "block_buffer_head s < BLOCK_BUFFER_SIZE s" "block_buffer_head s \<le> 127"
    and rel: "alike E P s t"
    and run: "planner_reverse_pass st s = Some (Ok s')"
  shows "\<exists>t'. planner_reverse_pass st t = Some (Ok t') \<and>
      alike (\<lambda>c. E c \<or> (block_buffer_tail s < int c \<and> int c \<le> block_buffer_head s)) P s' t' \<and>
      alike (\<lambda>c. \<not> (block_buffer_tail s < int c \<and> int c \<le> block_buffer_head s))
        (\<lambda>c. True) s s'"
proof -
  define T where "T = block_buffer_tail s"
  define H where "H = block_buffer_head s"
  define F where "F = (\<lambda>c. \<not> (T < int c \<and> int c \<le> H))"
  define R where "R = (\<lambda>i (w :: block_ptr \<times> block_ptr \<times> block_ptr) u t'.
      alike F (\<lambda>c. True) s u \<and> alike (\<lambda>c. E c \<or> (i + 1 < int c \<and> int c \<le> H)) P u t' \<and>
      T \<le> i \<and> i \<le> H \<and> fst w = ptr_upto H (i + 1) \<and> fst (snd w) = ptr_upto H (i + 2))"
  from run obtain w s1 where
    loop: "reverse_loop st (to_int8 (block_buffer_head s)) (None, None, None) s = Some (Ok (w, s1))"
    and s': "s' = planner_reverse_pass_kernel st None (fst w) (fst (snd w)) s1"
    by (auto simp: planner_reverse_pass_def split: option.splits result.splits)
  from idx have start_index: "to_int8 (block_buffer_head s) = H"
    by (simp add: to_int8_small H_def)
  from rel have shape_t: "same_shape s t" by (rule alike_shape)
  from idx have T0: "0 \<le> T" by (simp add: T_def)
  have "alike (\<lambda>c. E c \<or> (H + 1 < int c \<and> int c \<le> H)) P s t"
    by (rule alike_mono [OF rel]) auto
  then have start: "R H (None, None, None) s t"
    using idx by (simp add: R_def ptr_upto_def T_def H_def)
  have window: "\<not> F c \<and> c < length (block_buffer u)"
    if "same_shape s u" "T \<le> i" "ptr_upto H (i + 1) = Some c" for u i c
    using that idx
    by (auto simp: ptr_upto_def F_def same_shape_def H_def T_def BLOCK_BUFFER_SIZE_def
        split: if_splits)
  have kernel: "alike F (\<lambda>c. True) s (planner_reverse_pass_kernel st previous (fst w) (fst (snd w)) u) \<and>
      alike (\<lambda>c. E c \<or> (i < int c \<and> int c \<le> H)) P
        (planner_reverse_pass_kernel st previous (fst w) (fst (snd w)) u)
        (planner_reverse_pass_kernel st previous (fst w) (fst (snd w)) t')"
    if rel: "R i w u t'" and prev: "\<And>p. previous = Some p \<Longrightarrow> p < length (block_buffer u)"
    for i w u t' previous
  proof -
    from rel have su: "alike F (\<lambda>c. True) s u"
      and ut: "alike (\<lambda>c. E c \<or> (i + 1 < int c \<and> int c \<le> H)) P u t'"
      and range: "T \<le> i" "i \<le> H" and win: "fst w = ptr_upto H (i + 1)"
      "fst (snd w) = ptr_upto H (i + 2)"
      by (simp_all add: R_def)
    from su have shape: "same_shape s u" by (rule alike_shape)
    have 1: "alike F (\<lambda>c. True) s (planner_reverse_pass_kernel st previous (fst w) (fst (snd w)) u)"
      using window [OF shape range(1)] by (intro reverse_kernel_effect [OF su]) (simp add: win)
    have "alike (\<lambda>x. (E x \<or> (i + 1 < int x \<and> int x \<le> H)) \<or> fst w = Some x) P
        (planner_reverse_pass_kernel st previous (fst w) (fst (snd w)) u)
        (planner_reverse_pass_kernel st previous (fst w) (fst (snd w)) t')"
    proof (rule reverse_kernel_alike [OF ut prev])
      fix c assume "fst w = Some c"
      with window [OF shape range(1), of c] show "c < length (block_buffer u)"
        by (simp add: win)
    next
      fix d assume "fst (snd w) = Some d"
      with window [OF shape, of "i + 1" d] range T0
      show "d < length (block_buffer u) \<and> (E d \<or> (i + 1 < int d \<and> int d \<le> H))"
        by (auto simp: win ptr_upto_def add.commute split: if_splits)
    qed
    then have 2: "alike (\<lambda>c. E c \<or> (i < int c \<and> int c \<le> H)) P
        (planner_reverse_pass_kernel st previous (fst w) (fst (snd w)) u)
        (planner_reverse_pass_kernel st previous (fst w) (fst (snd w)) t')"
      by (rule alike_mono) (use range T0 in \<open>auto simp: win ptr_upto_def\<close>)
    from 1 2 show ?thesis by simp
  qed
  have step: "R (to_int8 (c_rem (i - 1) (BLOCK_BUFFER_SIZE u))) (Some k, fst w, fst (snd w))
        (planner_reverse_pass_kernel st (Some k) (fst w) (fst (snd w)) u)
        (planner_reverse_pass_kernel st (Some k) (fst w) (fst (snd w)) t')"
    if rel: "R i w u t'" and ne: "i \<noteq> block_buffer_tail u" and addr: "addr_of u i = Ok k"
    for i k w u t'
  proof -
    from rel have su: "alike F (\<lambda>c. True) s u"
      and range: "T \<le> i" "i \<le> H" and win: "fst w = ptr_upto H (i + 1)"
      by (simp_all add: R_def)
    from su have shape: "same_shape s u" by (rule alike_shape)
    then have tail: "block_buffer_tail u = T" and size: "BLOCK_BUFFER_SIZE u = BLOCK_BUFFER_SIZE s"
      by (simp_all add: same_shape_def T_def BLOCK_BUFFER_SIZE_def)
    from ne tail range idx have i: "T < i" "0 < i" "i \<le> 127" "i < BLOCK_BUFFER_SIZE s"
      by (simp_all add: T_def H_def)
    from addr have k: "k = nat i" "k < length (block_buffer u)"
      by (auto simp: addr_of_def BLOCK_BUFFER_SIZE_def split: if_splits)
    from i have next_index: "to_int8 (c_rem (i - 1) (BLOCK_BUFFER_SIZE u)) = i - 1"
      by (simp add: size c_rem_small to_int8_small)
    have win': "Some k = ptr_upto H i"
      using range k by (simp add: ptr_upto_def)
    from win have win'': "fst w = ptr_upto H (1 + i)" by (simp add: add.commute)
    from k(2) have "\<And>p. Some k = Some p \<Longrightarrow> p < length (block_buffer u)" by simp
    from kernel [OF rel this] i range win' win'' show ?thesis
      unfolding next_index by (simp add: R_def)
  qed
  have shape: "block_buffer_tail t' = block_buffer_tail u \<and> BLOCK_BUFFER_SIZE t' = BLOCK_BUFFER_SIZE u"
    if "R i w u t'" for i w u t'
    using that alike_shape [of _ P u t'] by (auto simp: R_def same_shape_def BLOCK_BUFFER_SIZE_def)
  have "\<exists>t1. reverse_loop st H (None, None, None) t = Some (Ok (w, t1)) \<and>
      R (block_buffer_tail s1) w s1 t1"
    by (rule reverse_loop_simulation [where R = R, OF _ _ loop [unfolded start_index] start])
      (rule step, assumption+, rule shape, assumption)
  then obtain t1 where loop_t: "reverse_loop st H (None, None, None) t = Some (Ok (w, t1))"
    and final: "R (block_buffer_tail s1) w s1 t1"
    by blast
  from final have "same_shape s s1" by (auto simp: R_def dest: alike_shape)
  then have tail1: "block_buffer_tail s1 = T" by (simp add: same_shape_def T_def)
  from shape_t idx have "to_int8 (block_buffer_head t) = H"
    by (simp add: same_shape_def to_int8_small H_def)
  with loop_t have "planner_reverse_pass st t =
      Some (Ok (planner_reverse_pass_kernel st None (fst w) (fst (snd w)) t1))"
    by (simp add: planner_reverse_pass_def)
  with kernel [OF final [unfolded tail1], of None] show ?thesis
    unfolding s' F_def T_def H_def by simp
qed

lemma forward_kernel_slot:
  assumes "planner_forward_pass_kernel_reading g st previous current nx u = Ok u'"
  shows "slot u' k =
    (case current of
       None \<Rightarrow> slot u k
     | Some c \<Rightarrow>
         if k = c \<and> c < length (block_buffer u)
         then (slot u c)\<lparr>entry_factor :=
           forward_entry_factor st (case previous of None \<Rightarrow> g | Some p \<Rightarrow> slot u p) (slot u c)\<rparr>
         else slot u k)"
  using assms by (cases current) (auto simp: forward_kernel_reading_store slot_store)

lemma forward_pass_alike:
  assumes idx: "0 \<le> block_buffer_tail s" "block_buffer_tail s < block_buffer_head s"
      "block_buffer_head s < BLOCK_BUFFER_SIZE s" "block_buffer_head s \<le> 127"
    and rel: "alike E P s t"
    and inner: "\<And>c. block_buffer_tail s < int c \<Longrightarrow> int c < block_buffer_head s \<Longrightarrow> E c"
    and first: "forward_entry_factor st g (slot t (nat (block_buffer_tail s))) =
      forward_entry_factor st g (slot s (nat (block_buffer_tail s)))"
    and run: "planner_forward_pass_reading g st s = Some (Ok s')"
  shows "\<exists>t'. planner_forward_pass_reading g st t = Some (Ok t') \<and>
      alike (\<lambda>c. E c \<or> c = nat (block_buffer_tail s)) P s' t' \<and>
      alike (\<lambda>c. \<not> (block_buffer_tail s \<le> int c \<and> int c < block_buffer_head s))
        (\<lambda>c. True) s s' \<and>
      forward_entry_factor st g (slot s' (nat (block_buffer_tail s))) =
        forward_entry_factor st g (slot s (nat (block_buffer_tail s)))"
proof -
  define T where "T = block_buffer_tail s"
  define H where "H = block_buffer_head s"
  define F where "F = (\<lambda>c. \<not> (T \<le> int c \<and> int c < H))"
  define core where "core = (\<lambda>i u t'.
      alike F (\<lambda>c. True) s u \<and>
      forward_entry_factor st g (slot u (nat T)) = forward_entry_factor st g (slot s (nat T)) \<and>
      alike (\<lambda>c. E c \<or> (c = nat T \<and> T + 1 < i)) P u t' \<and>
      (i \<le> T + 1 \<longrightarrow>
         forward_entry_factor st g (slot t' (nat T)) = forward_entry_factor st g (slot u (nat T))))"
  define R where "R = (\<lambda>i (w :: block_ptr \<times> block_ptr \<times> block_ptr) u t'.
      core i u t' \<and> T \<le> i \<and> i \<le> H \<and>
      fst (snd w) = ptr_from T (i - 2) \<and> snd (snd w) = ptr_from T (i - 1))"
  from idx have T0: "0 \<le> T" "T < H" by (simp_all add: T_def H_def)
  from run obtain w s1 where
    loop: "forward_loop_reading g st (to_int8 (block_buffer_tail s)) (None, None, None) s =
             Some (Ok (w, s1))"
    and s': "planner_forward_pass_kernel_reading g st (fst (snd w)) (snd (snd w)) None s1 = Ok s'"
    by (auto simp: planner_forward_pass_reading_def split: option.splits result.splits)
  from idx have start_index: "to_int8 (block_buffer_tail s) = T"
    by (simp add: to_int8_small T_def)
  from rel have shape_t: "same_shape s t" by (rule alike_shape)
  have "alike (\<lambda>c. E c \<or> (c = nat T \<and> T + 1 < T)) P s t"
    by (rule alike_mono [OF rel]) auto
  with first have start: "R T (None, None, None) s t"
    using T0 by (simp add: R_def core_def ptr_from_def T_def)
  have kernel: "\<exists>t1. planner_forward_pass_kernel_reading g st (fst (snd w)) (snd (snd w)) nx t' = Ok t1 \<and>
      core (i + 1) u1 t1"
    if rel: "R i w u t'"
      and run: "planner_forward_pass_kernel_reading g st (fst (snd w)) (snd (snd w)) nx u = Ok u1"
    for i w u t' nx u1
  proof -
    from rel have su: "alike F (\<lambda>c. True) s u"
      and fu: "forward_entry_factor st g (slot u (nat T)) = forward_entry_factor st g (slot s (nat T))"
      and ut: "alike (\<lambda>c. E c \<or> (c = nat T \<and> T + 1 < i)) P u t'"
      and ft: "i \<le> T + 1 \<Longrightarrow>
         forward_entry_factor st g (slot t' (nat T)) = forward_entry_factor st g (slot u (nat T))"
      and range: "T \<le> i" "i \<le> H"
      and win: "fst (snd w) = ptr_from T (i - 2)" "snd (snd w) = ptr_from T (i - 1)"
      by (simp_all add: R_def core_def)
    from su have shape: "same_shape s u" by (rule alike_shape)
    then have len: "length (block_buffer u) = length (block_buffer s)"
      by (simp add: same_shape_def)
    from idx have H_len: "H < int (length (block_buffer s))"
      by (simp add: H_def BLOCK_BUFFER_SIZE_def)
    show ?thesis
    proof (cases "i = T")
      case True
      then have cur: "snd (snd w) = None" by (simp add: win ptr_from_def)
      with run have "u1 = u" by simp
      moreover have "alike (\<lambda>c. E c \<or> (c = nat T \<and> T + 1 < i + 1)) P u t'"
        by (rule alike_mono [OF ut]) (use True in auto)
      ultimately show ?thesis
        using su fu ft True cur by (simp add: core_def)
    next
      case False
      with range have i: "T < i" by simp
      define c where "c = nat (i - 1)"
      from i have cur: "snd (snd w) = Some c" by (simp add: win ptr_from_def c_def)
      from i range T0 H_len have c: "c < length (block_buffer u)" "T \<le> int c" "int c < H"
        "int c = i - 1"
        by (simp_all add: c_def len)
      have 1: "alike F (\<lambda>c. True) s u1"
        using c by (intro forward_kernel_effect [OF su _ run]) (simp add: cur F_def)
      have same: "forward_entry_factor st
            (case fst (snd w) of None \<Rightarrow> g | Some p \<Rightarrow> slot t' p) (slot t' c) =
          forward_entry_factor st
            (case fst (snd w) of None \<Rightarrow> g | Some p \<Rightarrow> slot u p) (slot u c)"
      proof (cases "i = T + 1")
        case True
        then have "fst (snd w) = None" "c = nat T" by (simp_all add: win ptr_from_def c_def)
        with ft True show ?thesis by simp
      next
        case False
        with i have far: "T + 1 < i" by simp
        define p where "p = nat (i - 2)"
        from far have prev: "fst (snd w) = Some p" by (simp add: win ptr_from_def p_def)
        from far T0 c have p: "p < length (block_buffer u)" "T \<le> int p" "int p < H"
          by (simp_all add: p_def c_def)
        have "E p \<or> (p = nat T \<and> T + 1 < i)"
        proof (cases "p = nat T")
          case True
          with far show ?thesis by simp
        next
          case False
          with p T0 have "T < int p" by (simp add: nat_eq_iff)
          with inner p show ?thesis by (simp add: T_def H_def)
        qed
        moreover from far c inner have "E c" by (simp add: T_def H_def)
        ultimately show ?thesis
          using forward_entry_factor_alike [OF ut p(1) c(1)] prev by simp
      qed
      from forward_kernel_alike [OF ut _ run, of nx] same cur obtain t1 where
        t1: "planner_forward_pass_kernel_reading g st (fst (snd w)) (snd (snd w)) nx t' = Ok t1"
        and wide: "alike (\<lambda>x. (E x \<or> (x = nat T \<and> T + 1 < i)) \<or> snd (snd w) = Some x) P u1 t1"
        by auto
      from wide have 3: "alike (\<lambda>c. E c \<or> (c = nat T \<and> T + 1 < i + 1)) P u1 t1"
        by (rule alike_mono) (use i T0 in \<open>auto simp: cur c_def\<close>)
      have 2: "forward_entry_factor st g (slot u1 (nat T)) =
          forward_entry_factor st g (slot s (nat T))"
      proof (cases "c = nat T")
        case True
        with c T0 have "i = T + 1" by simp
        then have "fst (snd w) = None" by (simp add: win ptr_from_def)
        with forward_kernel_slot [OF run, of c] cur c(1) True
        have "slot u1 (nat T) = (slot u (nat T))\<lparr>entry_factor :=
            forward_entry_factor st g (slot u (nat T))\<rparr>"
          by simp
        then have "forward_entry_factor st g (slot u1 (nat T)) =
            forward_entry_factor st g (slot u (nat T))"
          by (simp only: forward_entry_factor_idem)
        with fu show ?thesis by simp
      next
        case False
        with forward_kernel_slot [OF run, of "nat T"] cur fu show ?thesis
          by simp
      qed
      from 1 2 3 t1 i show ?thesis by (auto simp: core_def)
    qed
  qed
  have step: "\<exists>t1. planner_forward_pass_kernel_reading g st (fst (snd w)) (snd (snd w)) (Some k) t'
        = Ok t1 \<and>
      R (to_int8 (c_rem (i + 1) (BLOCK_BUFFER_SIZE u1))) (fst (snd w), snd (snd w), Some k) u1 t1"
    if rel: "R i w u t'" and ne: "i \<noteq> block_buffer_head u" and addr: "addr_of u i = Ok k"
      and run: "planner_forward_pass_kernel_reading g st (fst (snd w)) (snd (snd w)) (Some k) u = Ok u1"
    for i k w u t' u1
  proof -
    from rel have su: "alike F (\<lambda>c. True) s u"
      and range: "T \<le> i" "i \<le> H"
      and win: "fst (snd w) = ptr_from T (i - 2)" "snd (snd w) = ptr_from T (i - 1)"
      by (simp_all add: R_def core_def)
    from su have "same_shape s u" by (rule alike_shape)
    with forward_kernel_shape [OF run] have shape: "same_shape s u" "same_shape s u1"
      by (auto intro: same_shape_trans)
    then have head: "block_buffer_head u = H"
      and size: "BLOCK_BUFFER_SIZE u1 = BLOCK_BUFFER_SIZE s"
      by (simp_all add: same_shape_def H_def BLOCK_BUFFER_SIZE_def)
    from ne head range idx T0 have i: "i < H" "0 \<le> i" "i + 1 \<le> 127" "i + 1 < BLOCK_BUFFER_SIZE s"
      by (simp_all add: H_def)
    from addr have k: "k = nat i"
      by (auto simp: addr_of_def split: if_splits)
    from i have next_index: "to_int8 (c_rem (i + 1) (BLOCK_BUFFER_SIZE u1)) = i + 1"
      by (simp add: size c_rem_small to_int8_small)
    have win': "Some k = ptr_from T (i + 1 - 1)" "snd (snd w) = ptr_from T (i + 1 - 2)"
      using range i k win by (simp_all add: ptr_from_def)
    from kernel [OF rel run] obtain t1 where
      "planner_forward_pass_kernel_reading g st (fst (snd w)) (snd (snd w)) (Some k) t' = Ok t1"
      "core (i + 1) u1 t1"
      by blast
    with range i win' show ?thesis
      unfolding next_index R_def by simp
  qed
  have shape: "block_buffer_head t' = block_buffer_head u \<and> BLOCK_BUFFER_SIZE t' = BLOCK_BUFFER_SIZE u"
    if "R i w u t'" for i w u t'
    using that alike_shape [of _ P u t']
    by (auto simp: R_def core_def same_shape_def BLOCK_BUFFER_SIZE_def)
  have "\<exists>t1. forward_loop_reading g st T (None, None, None) t = Some (Ok (w, t1)) \<and>
      R (block_buffer_head s1) w s1 t1"
    by (rule forward_loop_reading_simulation [where R = R, OF _ _ loop [unfolded start_index] start])
      (rule step, assumption+, rule shape, assumption)
  then obtain t1 where loop_t: "forward_loop_reading g st T (None, None, None) t = Some (Ok (w, t1))"
    and final: "R (block_buffer_head s1) w s1 t1"
    by blast
  from final have "same_shape s s1" by (auto simp: R_def core_def dest: alike_shape)
  then have head1: "block_buffer_head s1 = H" by (simp add: same_shape_def H_def)
  from shape_t idx have "to_int8 (block_buffer_tail t) = T"
    by (simp add: same_shape_def to_int8_small T_def)
  with loop_t have pass: "planner_forward_pass_reading g st t =
      Some (planner_forward_pass_kernel_reading g st (fst (snd w)) (snd (snd w)) None t1)"
    by (simp add: planner_forward_pass_reading_def)
  from kernel [OF final [unfolded head1] s'] obtain t' where
    t': "planner_forward_pass_kernel_reading g st (fst (snd w)) (snd (snd w)) None t1 = Ok t'"
    and last: "core (H + 1) s' t'"
    by blast
  from last have "alike F (\<lambda>c. True) s s'"
    "forward_entry_factor st g (slot s' (nat T)) = forward_entry_factor st g (slot s (nat T))"
    "alike (\<lambda>c. E c \<or> (c = nat T \<and> T + 1 < H + 1)) P s' t'"
    by (simp_all add: core_def)
  moreover from this(3) have "alike (\<lambda>c. E c \<or> c = nat T) P s' t'"
    by (rule alike_mono) (use T0 in auto)
  ultimately show ?thesis
    using pass t' unfolding F_def T_def H_def by simp
qed

lemma trapezoid_step_last:
  "trapezoid_step st (Some c) k s =
   calculate_trapezoid_for_block st (Some c) (entry_factor (block_buffer s ! c)) (Fin 0) s"
  unfolding trapezoid_step_def by (simp add: calculate_trapezoid_exit [where x = "entry_factor _"])

lemma trapezoids_pass_alike:
  assumes idx: "0 \<le> block_buffer_tail s" "block_buffer_tail s < block_buffer_head s"
      "block_buffer_head s < BLOCK_BUFFER_SIZE s" "block_buffer_head s \<le> 127"
    and rel: "alike E P s t"
    and inner: "\<And>c. block_buffer_tail s \<le> int c \<Longrightarrow> int c < block_buffer_head s \<Longrightarrow> E c"
    and run: "planner_recalculate_trapezoids st s = Some (Ok s')"
  shows "\<exists>t'. planner_recalculate_trapezoids st t = Some (Ok t') \<and>
      alike E (\<lambda>c. P c \<or> (block_buffer_tail s \<le> int c \<and> int c < block_buffer_head s)) s' t' \<and>
      alike (\<lambda>c. True) (\<lambda>c. \<not> (block_buffer_tail s \<le> int c \<and> int c < block_buffer_head s))
        s s'"
proof -
  define T where "T = block_buffer_tail s"
  define H where "H = block_buffer_head s"
  define F where "F = (\<lambda>c. \<not> (T \<le> int c \<and> int c < H))"
  define core where "core = (\<lambda>i u t'.
      alike (\<lambda>c. True) F s u \<and> alike E (\<lambda>c. P c \<or> (T \<le> int c \<and> int c < i - 1)) u t')"
  define R where "R = (\<lambda>i (n :: block_ptr) u t'.
      core i u t' \<and> T \<le> i \<and> i \<le> H \<and> n = ptr_from T (i - 1))"
  from idx have T0: "0 \<le> T" "T < H" by (simp_all add: T_def H_def)
  from run obtain c s1 where
    loop: "trapezoids_loop st (to_int8 (block_buffer_tail s)) None s = Some (Ok (Some c, s1))"
    and s': "calculate_trapezoid_for_block st (Some c) (entry_factor (block_buffer s1 ! c))
               (Fin 0) s1 = Ok s'"
    by (auto simp: planner_recalculate_trapezoids_def split: option.splits result.splits)
  from idx have start_index: "to_int8 (block_buffer_tail s) = T"
    by (simp add: to_int8_small T_def)
  from rel have shape_t: "same_shape s t" by (rule alike_shape)
  have "alike E (\<lambda>c. P c \<or> (T \<le> int c \<and> int c < T - 1)) s t"
    by (rule alike_mono [OF rel]) auto
  then have start: "R T None s t"
    using T0 by (simp add: R_def core_def ptr_from_def)
  have kernel: "\<exists>t1. trapezoid_step st n k t' = Ok t1 \<and> core (i + 1) u1 t1"
    if rel: "R i n u t'" and run: "trapezoid_step st n k u = Ok u1"
    for i n u t' k u1
  proof -
    from rel have su: "alike (\<lambda>c. True) F s u"
      and ut: "alike E (\<lambda>c. P c \<or> (T \<le> int c \<and> int c < i - 1)) u t'"
      and range: "T \<le> i" "i \<le> H" and win: "n = ptr_from T (i - 1)"
      by (simp_all add: R_def core_def)
    from su have shape: "same_shape s u" by (rule alike_shape)
    then have len: "length (block_buffer u) = length (block_buffer s)"
      by (simp add: same_shape_def)
    from idx have H_len: "H < int (length (block_buffer s))"
      by (simp add: H_def BLOCK_BUFFER_SIZE_def)
    have cur: "c < length (block_buffer u) \<and> E c \<and> \<not> F c \<and> int c = i - 1" if "n = Some c" for c
      using that range T0 H_len inner [of c]
      by (auto simp: win ptr_from_def len F_def T_def H_def split: if_splits)
    have 1: "alike (\<lambda>c. True) F s u1"
      by (rule trapezoid_step_effect [OF su _ run]) (simp add: cur)
    from trapezoid_step_alike [OF ut _ run] cur obtain t1 where
      t1: "trapezoid_step st n k t' = Ok t1"
      and wide: "alike E (\<lambda>y. (P y \<or> (T \<le> int y \<and> int y < i - 1)) \<or> n = Some y) u1 t1"
      by blast
    from wide have "alike E (\<lambda>c. P c \<or> (T \<le> int c \<and> int c < i + 1 - 1)) u1 t1"
      by (rule alike_mono) (use T0 in \<open>auto simp: win ptr_from_def\<close>)
    with 1 t1 show ?thesis by (auto simp: core_def)
  qed
  have step: "\<exists>t1. trapezoid_step st n k t' = Ok t1 \<and>
      R (to_int8 (c_rem (i + 1) (BLOCK_BUFFER_SIZE u1))) (Some k) u1 t1"
    if rel: "R i n u t'" and ne: "i \<noteq> block_buffer_head u" and addr: "addr_of u i = Ok k"
      and run: "trapezoid_step st n k u = Ok u1"
    for i k n u t' u1
  proof -
    from rel have su: "alike (\<lambda>c. True) F s u" and range: "T \<le> i" "i \<le> H"
      by (simp_all add: R_def core_def)
    from su have "same_shape s u" by (rule alike_shape)
    with trapezoid_step_shape [OF run] have shape: "same_shape s u" "same_shape s u1"
      by (auto intro: same_shape_trans)
    then have head: "block_buffer_head u = H"
      and size: "BLOCK_BUFFER_SIZE u1 = BLOCK_BUFFER_SIZE s"
      by (simp_all add: same_shape_def H_def BLOCK_BUFFER_SIZE_def)
    from ne head range idx T0 have i: "i < H" "0 \<le> i" "i + 1 \<le> 127" "i + 1 < BLOCK_BUFFER_SIZE s"
      by (simp_all add: H_def)
    from addr have k: "k = nat i"
      by (auto simp: addr_of_def split: if_splits)
    from i have next_index: "to_int8 (c_rem (i + 1) (BLOCK_BUFFER_SIZE u1)) = i + 1"
      by (simp add: size c_rem_small to_int8_small)
    have win': "Some k = ptr_from T (i + 1 - 1)"
      using range i k by (simp add: ptr_from_def)
    from kernel [OF rel run] obtain t1 where
      "trapezoid_step st n k t' = Ok t1" "core (i + 1) u1 t1"
      by blast
    with range i win' show ?thesis
      unfolding next_index R_def by simp
  qed
  have shape: "block_buffer_head t' = block_buffer_head u \<and> BLOCK_BUFFER_SIZE t' = BLOCK_BUFFER_SIZE u"
    if "R i n u t'" for i n u t'
    using that alike_shape [of E _ u t']
    by (auto simp: R_def core_def same_shape_def BLOCK_BUFFER_SIZE_def)
  have "\<exists>t1. trapezoids_loop st T None t = Some (Ok (Some c, t1)) \<and>
      R (block_buffer_head s1) (Some c) s1 t1"
    by (rule trapezoids_loop_simulation [where R = R, OF _ _ loop [unfolded start_index] start])
      (rule step, assumption+, rule shape, assumption)
  then obtain t1 where loop_t: "trapezoids_loop st T None t = Some (Ok (Some c, t1))"
    and final: "R (block_buffer_head s1) (Some c) s1 t1"
    by blast
  from final have "same_shape s s1" by (auto simp: R_def core_def dest: alike_shape)
  then have head1: "block_buffer_head s1 = H" by (simp add: same_shape_def H_def)
  from shape_t idx have "to_int8 (block_buffer_tail t) = T"
    by (simp add: same_shape_def to_int8_small T_def)
  with loop_t have pass: "planner_recalculate_trapezoids st t =
      Some (trapezoid_step st (Some c) 0 t1)"
    by (simp add: planner_recalculate_trapezoids_def trapezoid_step_last)
  from s' have "trapezoid_step st (Some c) 0 s1 = Ok s'"
    by (simp add: trapezoid_step_last)
  from kernel [OF final [unfolded head1] this] obtain t' where
    t': "trapezoid_step st (Some c) 0 t1 = Ok t'" and last: "core (H + 1) s' t'"
    by blast
  from last pass t' show ?thesis
    unfolding F_def T_def H_def core_def by simp
qed

lemma forward_entry_factor_same:
  assumes "alike E P s u" "E c" "c < length (block_buffer s)"
  shows "forward_entry_factor st g (slot u c) = forward_entry_factor st g (slot s c)"
proof -
  from assms have "unplanned (slot u c) = unplanned (slot s c)"
    "entry_factor (slot u c) = entry_factor (slot s c)"
    by (simp_all add: alike_def)
  from forward_entry_factor_cong [OF refl refl this] show ?thesis .
qed

lemma recalculate_alike:
  assumes idx: "0 \<le> block_buffer_tail s" "block_buffer_tail s < block_buffer_head s"
      "block_buffer_head s < BLOCK_BUFFER_SIZE s" "block_buffer_head s \<le> 127"
    and rel: "alike E P s t"
    and factors: "\<And>c. \<not> (block_buffer_tail s \<le> int c \<and> int c \<le> block_buffer_head s) \<Longrightarrow> E c"
    and profiles: "\<And>c. \<not> (block_buffer_tail s \<le> int c \<and> int c < block_buffer_head s) \<Longrightarrow> P c"
    and first: "forward_entry_factor st g (slot t (nat (block_buffer_tail s))) =
      forward_entry_factor st g (slot s (nat (block_buffer_tail s)))"
    and run: "planner_recalculate_reading g st s = Some (Ok s')"
  shows "planner_recalculate_reading g st t = Some (Ok s') \<and>
    alike (\<lambda>c. \<not> (block_buffer_tail s \<le> int c \<and> int c \<le> block_buffer_head s))
      (\<lambda>c. \<not> (block_buffer_tail s \<le> int c \<and> int c < block_buffer_head s)) s s' \<and>
    forward_entry_factor st g (slot s' (nat (block_buffer_tail s))) =
      forward_entry_factor st g (slot s (nat (block_buffer_tail s)))"
proof -
  define T where "T = block_buffer_tail s"
  define H where "H = block_buffer_head s"
  note idx' = idx [folded T_def H_def]
  from idx have T_len: "nat T < length (block_buffer s)"
    by (simp add: T_def BLOCK_BUFFER_SIZE_def)
  from run obtain s1 s2 where
    r: "planner_reverse_pass st s = Some (Ok s1)"
    and f: "planner_forward_pass_reading g st s1 = Some (Ok s2)"
    and tr: "planner_recalculate_trapezoids st s2 = Some (Ok s')"
    by (auto simp: planner_recalculate_reading_def split: option.splits result.splits)
  from rel have shape_t: "same_shape s t" by (rule alike_shape)
  then have idx_t: "0 \<le> block_buffer_tail t" "block_buffer_tail t < block_buffer_head t"
    "block_buffer_head t < BLOCK_BUFFER_SIZE t" "block_buffer_head t \<le> 127"
    and ends_t: "block_buffer_tail t = T" "block_buffer_head t = H"
    using idx by (simp_all add: same_shape_def BLOCK_BUFFER_SIZE_def T_def H_def)
  from reverse_pass_alike [OF idx rel r] obtain t1 where
    rt: "planner_reverse_pass st t = Some (Ok t1)"
    and a1: "alike (\<lambda>c. E c \<or> (T < int c \<and> int c \<le> H)) P s1 t1"
    and b1: "alike (\<lambda>c. \<not> (T < int c \<and> int c \<le> H)) (\<lambda>c. True) s s1"
    unfolding T_def H_def by blast
  from reverse_pass_alike [OF idx_t alike_refl rt]
  have c1: "alike (\<lambda>c. \<not> (T < int c \<and> int c \<le> H)) (\<lambda>c. True) t t1"
    unfolding ends_t by (auto simp: rt)
  from b1 have shape1: "same_shape s s1" by (rule alike_shape)
  then have idx1: "0 \<le> block_buffer_tail s1" "block_buffer_tail s1 < block_buffer_head s1"
    "block_buffer_head s1 < BLOCK_BUFFER_SIZE s1" "block_buffer_head s1 \<le> 127"
    and ends1: "block_buffer_tail s1 = T" "block_buffer_head s1 = H"
    using idx by (simp_all add: same_shape_def BLOCK_BUFFER_SIZE_def T_def H_def)
  from shape_t have T_len_t: "nat T < length (block_buffer t)"
    using T_len by (simp add: same_shape_def)
  from idx' have out: "\<not> (T < int (nat T) \<and> int (nat T) \<le> H)" by simp
  have first1: "forward_entry_factor st g (slot t1 (nat T)) =
      forward_entry_factor st g (slot s1 (nat T))"
    using forward_entry_factor_same [OF b1 out T_len, of st g]
      forward_entry_factor_same [OF c1 out T_len_t, of st g] first
    by (simp add: T_def)
  have "\<exists>t2. planner_forward_pass_reading g st t1 = Some (Ok t2) \<and>
      alike (\<lambda>c. (E c \<or> (T < int c \<and> int c \<le> H)) \<or> c = nat T) P s2 t2 \<and>
      alike (\<lambda>c. \<not> (T \<le> int c \<and> int c < H)) (\<lambda>c. True) s1 s2 \<and>
      forward_entry_factor st g (slot s2 (nat T)) = forward_entry_factor st g (slot s1 (nat T))"
    using forward_pass_alike [OF idx1 a1 _ _ f] first1
    unfolding ends1 by simp
  then obtain t2 where
    ft: "planner_forward_pass_reading g st t1 = Some (Ok t2)"
    and a2: "alike (\<lambda>c. (E c \<or> (T < int c \<and> int c \<le> H)) \<or> c = nat T) P s2 t2"
    and b2: "alike (\<lambda>c. \<not> (T \<le> int c \<and> int c < H)) (\<lambda>c. True) s1 s2"
    and f2: "forward_entry_factor st g (slot s2 (nat T)) =
      forward_entry_factor st g (slot s1 (nat T))"
    by blast
  from b2 shape1 have shape2: "same_shape s s2" by (auto dest: alike_shape intro: same_shape_trans)
  then have idx2: "0 \<le> block_buffer_tail s2" "block_buffer_tail s2 < block_buffer_head s2"
    "block_buffer_head s2 < BLOCK_BUFFER_SIZE s2" "block_buffer_head s2 \<le> 127"
    and ends2: "block_buffer_tail s2 = T" "block_buffer_head s2 = H"
    and len2: "length (block_buffer s2) = length (block_buffer s)"
    using idx by (simp_all add: same_shape_def BLOCK_BUFFER_SIZE_def T_def H_def)
  have "\<exists>t'. planner_recalculate_trapezoids st t2 = Some (Ok t') \<and>
      alike (\<lambda>c. (E c \<or> (T < int c \<and> int c \<le> H)) \<or> c = nat T)
        (\<lambda>c. P c \<or> (T \<le> int c \<and> int c < H)) s' t' \<and>
      alike (\<lambda>c. True) (\<lambda>c. \<not> (T \<le> int c \<and> int c < H)) s2 s'"
  proof -
    have "(E c \<or> (T < int c \<and> int c \<le> H)) \<or> c = nat T" if "T \<le> int c" "int c < H" for c
      using that by (cases "int c = T") auto
    from trapezoids_pass_alike [OF idx2 a2 _ tr] this show ?thesis
      unfolding ends2 by simp
  qed
  then obtain t' where
    tt: "planner_recalculate_trapezoids st t2 = Some (Ok t')"
    and a3: "alike (\<lambda>c. (E c \<or> (T < int c \<and> int c \<le> H)) \<or> c = nat T)
        (\<lambda>c. P c \<or> (T \<le> int c \<and> int c < H)) s' t'"
    and b3: "alike (\<lambda>c. True) (\<lambda>c. \<not> (T \<le> int c \<and> int c < H)) s2 s'"
    by blast
  have "alike (\<lambda>c. True) (\<lambda>c. True) s' t'"
  proof (rule alike_mono [OF a3])
    fix c
    show "(E c \<or> (T < int c \<and> int c \<le> H)) \<or> c = nat T"
    proof (cases "T \<le> int c \<and> int c \<le> H")
      case True
      then show ?thesis by (cases "int c = T") auto
    next
      case False
      with factors [of c] show ?thesis by (simp add: T_def H_def)
    qed
    show "P c \<or> (T \<le> int c \<and> int c < H)"
      using profiles [of c] by (auto simp: T_def H_def)
  qed
  then have "t' = s'" by (rule alike_all)
  with rt ft tt have 1: "planner_recalculate_reading g st t = Some (Ok s')"
    by (simp add: planner_recalculate_reading_def)
  from alike_trans [OF alike_trans [OF b1 b2] b3]
  have 2: "alike (\<lambda>c. \<not> (T \<le> int c \<and> int c \<le> H)) (\<lambda>c. \<not> (T \<le> int c \<and> int c < H)) s s'"
    by (rule alike_mono) auto
  have "forward_entry_factor st g (slot s' (nat T)) = forward_entry_factor st g (slot s2 (nat T))"
    using forward_entry_factor_same [OF b3 TrueI T_len [folded len2]] by simp
  with f2 forward_entry_factor_same [OF b1 out T_len, of st g]
  have 3: "forward_entry_factor st g (slot s' (nat T)) = forward_entry_factor st g (slot s (nat T))"
    by simp
  from 1 2 3 show ?thesis unfolding T_def H_def by simp
qed

lemma recalculate_reading_replans:
  "planner_recalculate_reading zero_block scenario_settings
     (ring [x_move_block,
            y_move_block\<lparr>entry_factor := Fin (1/2), accelerate_until := 0, decelerate_after := 0\<rparr>,
            zero_block] 2 0 True) =
   Some (Ok (ring [x_move_block, y_move_block, zero_block\<lparr>entry_factor := Fin (1/120)\<rparr>] 2 0 True))"
  by (simp add: reading_simps admit_simps pass_simps state_simps double_simps y_move_block_def)



end
